theory Spec2Isabelle
  imports Main
begin

section \<open>Data model of \<^verbatim>\<open>script.js\<close>\<close>

text \<open>
  A cell of \<^verbatim>\<open>state.board\<close> holds \<^verbatim>\<open>null\<close>, \<^verbatim>\<open>'X'\<close> or \<^verbatim>\<open>'O'\<close>. A JavaScript array can
  also have absent slots: writing past the end extends the array and leaves holes that read
  as \<^verbatim>\<open>undefined\<close>; \<open>Hole\<close> stands for such a slot.
\<close>

text \<open>The marks \<^verbatim>\<open>'X'\<close> and \<^verbatim>\<open>'O'\<close>.\<close>

datatype player = PlayerX | PlayerO

datatype cell = Null | Mark player | Hole

type_synonym board = "cell list"

text \<open>\<^verbatim>\<open>board[i]\<close>: a read outside the array gives \<^verbatim>\<open>undefined\<close>, as a hole does.\<close>

definition js_read :: "board \<Rightarrow> nat \<Rightarrow> cell" where
  "js_read b i = (if i < length b then b ! i else Hole)"

text \<open>\<^verbatim>\<open>board[i] = v\<close>: a write past the end extends the array, leaving holes.\<close>

definition js_write :: "board \<Rightarrow> nat \<Rightarrow> cell \<Rightarrow> board" where
  "js_write b i v =
     (if i < length b then b[i := v] else b @ replicate (i - length b) Hole @ [v])"

text \<open>Truthiness of a cell: \<^verbatim>\<open>null\<close> and \<^verbatim>\<open>undefined\<close> are falsy, the marks are truthy.\<close>

fun truthy :: "cell \<Rightarrow> bool" where
  "truthy (Mark p) = True"
| "truthy Null = False"
| "truthy Hole = False"

text \<open>\<^verbatim>\<open>Array(9).fill(null)\<close>\<close>

definition initialBoard :: board where
  "initialBoard = replicate 9 Null"

datatype mode = TwoPlayers | VsComputer

datatype difficulty = Easy | Unbeatable

record move =
  move_index :: nat
  move_player :: player

text \<open>
  The three tallies of \<^verbatim>\<open>state.scores\<close>. They are JavaScript numbers that hold
  integers: they start at 0 and the code only ever adds one to them.
\<close>

record scores =
  score_X :: nat
  score_O :: nat
  score_Draw :: nat

record state =
  board :: board
  currentPlayer :: player
  mode :: mode
  difficulty :: difficulty
  gameOver :: bool
  scores :: scores
  moveHistory :: "move list"

definition initialState :: state where
  "initialState =
     \<lparr> board = initialBoard, currentPlayer = PlayerX, mode = TwoPlayers, difficulty = Easy,
       gameOver = False, scores = \<lparr> score_X = 0, score_O = 0, score_Draw = 0 \<rparr>,
       moveHistory = [] \<rparr>"

definition winPatterns :: "nat list list" where
  "winPatterns =
     [[0, 1, 2], [3, 4, 5], [6, 7, 8],
      [0, 3, 6], [1, 4, 7], [2, 5, 8],
      [0, 4, 8], [2, 4, 6]]"

section \<open>Core game logic\<close>

text \<open>\<^verbatim>\<open>checkWinOnBoard(board, player)\<close>; \<^verbatim>\<open>checkWin(player)\<close> is the same test on \<^verbatim>\<open>state.board\<close>.\<close>

definition checkWinOnBoard :: "board \<Rightarrow> player \<Rightarrow> bool" where
  "checkWinOnBoard b p =
     list_ex (\<lambda>combination. list_all (\<lambda>i. js_read b i = Mark p) combination) winPatterns"

definition checkWin :: "state \<Rightarrow> player \<Rightarrow> bool" where
  "checkWin s p =
     list_ex (\<lambda>combination. list_all (\<lambda>i. js_read (board s) i = Mark p) combination) winPatterns"

text \<open>
  \<^verbatim>\<open>n++\<close> on a tally. A double counts the integers up to 2^53 = 9007199254740992
  exactly. From there to 2^54 the doubles are the even integers, and \<open>n + 1\<close> lies half way
  between two of them: it is rounded to the one with the even significand, so 2^53 stays
  2^53. From 2^54 on the doubles are at least four apart and \<open>n + 1\<close> is rounded back to
  \<open>n\<close>.
\<close>

definition js_increment :: "nat \<Rightarrow> nat" where
  "js_increment n =
     (if n < 2 ^ 53 then n + 1
      else if n < 2 ^ 54 \<and> odd (n div 2) then n + 2
      else n)"

text \<open>\<^verbatim>\<open>state.scores[player]++\<close>\<close>

fun incrementScore :: "player \<Rightarrow> scores \<Rightarrow> scores" where
  "incrementScore PlayerX sc = sc\<lparr> score_X := js_increment (score_X sc) \<rparr>"
| "incrementScore PlayerO sc = sc\<lparr> score_O := js_increment (score_O sc) \<rparr>"

text \<open>\<^verbatim>\<open>endGame\<close>: only the flag is state of the engine; the popup is presentation.\<close>

definition endGame :: "state \<Rightarrow> state" where
  "endGame s = s\<lparr> gameOver := True \<rparr>"

text \<open>\<^verbatim>\<open>board.every(cell => cell)\<close>: \<^verbatim>\<open>every\<close> skips the holes of an array.\<close>

definition everyCell :: "board \<Rightarrow> bool" where
  "everyCell b = list_all (\<lambda>c. c = Hole \<or> truthy c) b"

text \<open>
  What a call returns that ends at \<^verbatim>\<open>return;\<close> or at the end of the function body.
\<close>

datatype js_undefined = JsUndefined

text \<open>
  \<^verbatim>\<open>makeMove(index, player)\<close>. The guard \<^verbatim>\<open>state.board[index] || state.gameOver\<close> returns
  before anything is written. The call returns \<^verbatim>\<open>undefined\<close> on every path, so only the
  state tells an accepted move from a rejected one.
  The computer's reply that \<^verbatim>\<open>setTimeout\<close> schedules is a later call of \<^verbatim>\<open>makeMove\<close> on its own.
\<close>

definition makeMove :: "nat \<Rightarrow> player \<Rightarrow> state \<Rightarrow> js_undefined \<times> state" where
  "makeMove index p s =
     (if truthy (js_read (board s) index) \<or> gameOver s then (JsUndefined, s)
      else
        let s1 = s\<lparr> board := js_write (board s) index (Mark p) \<rparr>;
            s2 = s1\<lparr> moveHistory := moveHistory s1 @ [\<lparr> move_index = index, move_player = p \<rparr>] \<rparr>
        in if checkWin s2 p then
             (JsUndefined, endGame (s2\<lparr> scores := incrementScore p (scores s2) \<rparr>))
           else if everyCell (board s2) then
             (JsUndefined,
              endGame (s2\<lparr> scores := (scores s2)\<lparr> score_Draw := js_increment (score_Draw (scores s2)) \<rparr> \<rparr>))
           else
             (JsUndefined,
              s2\<lparr> currentPlayer := (if currentPlayer s2 = PlayerX then PlayerO else PlayerX) \<rparr>))"

text \<open>\<^verbatim>\<open>newGame\<close>\<close>

definition newGame :: "state \<Rightarrow> state" where
  "newGame s =
     s\<lparr> board := replicate (length (board s)) Null, currentPlayer := PlayerX,
        moveHistory := [], gameOver := False \<rparr>"

datatype undo_error = NothingToUndo

text \<open>One round of the loop of \<^verbatim>\<open>undoMove\<close>: \<^verbatim>\<open>pop\<close> on an empty array gives \<^verbatim>\<open>undefined\<close>.\<close>

definition popMove :: "state \<Rightarrow> state" where
  "popMove s =
     (case rev (moveHistory s) of
        [] \<Rightarrow> s
      | lastMove # _ \<Rightarrow>
          s\<lparr> moveHistory := butlast (moveHistory s),
             board := js_write (board s) (move_index lastMove) Null \<rparr>)"

definition undoMove :: "state \<Rightarrow> undo_error + state" where
  "undoMove s =
     (if length (moveHistory s) = 0 \<or> gameOver s then Inl NothingToUndo
      else
        let undoCount = (if mode s = VsComputer \<and> length (moveHistory s) > 1 then 2 else 1 :: nat);
            s1 = (popMove ^^ undoCount) s
        in Inr (s1\<lparr> currentPlayer :=
                  (if length (moveHistory s1) > 0
                   then (if move_player (last (moveHistory s1)) = PlayerX then PlayerO else PlayerX)
                   else PlayerX) \<rparr>))"

section \<open>AI logic\<close>

text \<open>
  The numbers of the search: the scores -10, 0 and 10, and the bounds \<^verbatim>\<open>-Infinity\<close> and
  \<^verbatim>\<open>Infinity\<close> that \<^verbatim>\<open>alpha\<close>, \<^verbatim>\<open>beta\<close> and \<^verbatim>\<open>bestScore\<close> start from.
\<close>

datatype js_number = NegInfinity | Num int | Infinity

fun js_gt :: "js_number \<Rightarrow> js_number \<Rightarrow> bool" where
  "js_gt NegInfinity _ = False"
| "js_gt (Num a) NegInfinity = True"
| "js_gt (Num a) (Num b) = (a > b)"
| "js_gt (Num a) Infinity = False"
| "js_gt Infinity Infinity = False"
| "js_gt Infinity _ = True"

definition js_lt :: "js_number \<Rightarrow> js_number \<Rightarrow> bool" where
  "js_lt a b = js_gt b a"

definition js_ge :: "js_number \<Rightarrow> js_number \<Rightarrow> bool" where
  "js_ge a b = (js_gt a b \<or> a = b)"

definition Math_max :: "js_number \<Rightarrow> js_number \<Rightarrow> js_number" where
  "Math_max a b = (if js_gt b a then b else a)"

definition Math_min :: "js_number \<Rightarrow> js_number \<Rightarrow> js_number" where
  "Math_min a b = (if js_gt a b then b else a)"

text \<open>
  The cells that are \<^verbatim>\<open>null\<close>, in ascending order:
  \<^verbatim>\<open>board.map((val, i) => val === null ? i : null).filter(val => val !== null)\<close>.
  A hole is skipped by \<^verbatim>\<open>map\<close> and by \<^verbatim>\<open>filter\<close>.
\<close>

definition emptyCellsOf :: "board \<Rightarrow> nat list" where
  "emptyCellsOf b = map fst (filter (\<lambda>(i, val). val = Null) (enumerate 0 b))"

text \<open>
  What \<^verbatim>\<open>minimax\<close> returns: an object \<^verbatim>\<open>{ score }\<close> or \<^verbatim>\<open>{ index, score }\<close>, or
  \<^verbatim>\<open>undefined\<close> where \<^verbatim>\<open>moves[bestMove]\<close> reads no element. Reading \<^verbatim>\<open>.score\<close> or
  \<^verbatim>\<open>.index\<close> of \<^verbatim>\<open>undefined\<close> throws a \<^verbatim>\<open>TypeError\<close>.
\<close>

datatype js_error = TypeError

record scored_move =
  index :: "nat option"
  score :: int

datatype result = Undefined | Obj scored_move

text \<open>
  The two selection scans at the end of \<^verbatim>\<open>minimax\<close>: \<open>i\<close> is the loop counter and the
  pair is \<^verbatim>\<open>(bestScore, bestMove)\<close>, with \<open>None\<close> for a \<^verbatim>\<open>bestMove\<close> never assigned.
\<close>

fun scanMax :: "scored_move list \<Rightarrow> nat \<Rightarrow> js_number \<times> nat option \<Rightarrow> js_number \<times> nat option" where
  "scanMax [] i best = best"
| "scanMax (m # ms) i (bestScore, bestMove) =
     (if js_gt (Num (score m)) bestScore then scanMax ms (Suc i) (Num (score m), Some i)
      else scanMax ms (Suc i) (bestScore, bestMove))"

fun scanMin :: "scored_move list \<Rightarrow> nat \<Rightarrow> js_number \<times> nat option \<Rightarrow> js_number \<times> nat option" where
  "scanMin [] i best = best"
| "scanMin (m # ms) i (bestScore, bestMove) =
     (if js_lt (Num (score m)) bestScore then scanMin ms (Suc i) (Num (score m), Some i)
      else scanMin ms (Suc i) (bestScore, bestMove))"

definition selectBest :: "player \<Rightarrow> scored_move list \<Rightarrow> result" where
  "selectBest p moves =
     (let bestMove = (if p = PlayerO then snd (scanMax moves 0 (NegInfinity, None))
                      else snd (scanMin moves 0 (Infinity, None)))
      in case bestMove of
           None \<Rightarrow> Undefined
         | Some i \<Rightarrow> (if i < length moves then Obj (moves ! i) else Undefined))"

text \<open>
  \<^verbatim>\<open>minimax(currentBoard, player, alpha, beta)\<close>. The board is one shared array that the
  search writes to, so it is passed in and returned. \<open>minimax_loop\<close> is the \<^verbatim>\<open>for\<close> loop
  over the rest of \<^verbatim>\<open>emptyCells\<close>, with the \<^verbatim>\<open>moves\<close> collected so far.
\<close>

function (domintros) minimax :: "board \<Rightarrow> player \<Rightarrow> js_number \<Rightarrow> js_number \<Rightarrow> (js_error + result) \<times> board"
  and minimax_loop :: "nat list \<Rightarrow> board \<Rightarrow> player \<Rightarrow> js_number \<Rightarrow> js_number \<Rightarrow> scored_move list
                        \<Rightarrow> (js_error + scored_move list) \<times> board"
where
  "minimax currentBoard p alpha beta =
     (let emptyCells = emptyCellsOf currentBoard in
      if checkWinOnBoard currentBoard PlayerX then (Inr (Obj \<lparr> index = None, score = - 10 \<rparr>), currentBoard)
      else if checkWinOnBoard currentBoard PlayerO then (Inr (Obj \<lparr> index = None, score = 10 \<rparr>), currentBoard)
      else if length emptyCells = 0 then (Inr (Obj \<lparr> index = None, score = 0 \<rparr>), currentBoard)
      else
        let r = minimax_loop emptyCells currentBoard p alpha beta [] in
        case fst r of
          Inl e \<Rightarrow> (Inl e, snd r)
        | Inr moves \<Rightarrow> (Inr (selectBest p moves), snd r))"
| "minimax_loop [] b p alpha beta moves = (Inr moves, b)"
| "minimax_loop (c # cs) b p alpha beta moves =
     (let b1 = js_write b c (Mark p);
          r = minimax b1 (if p = PlayerO then PlayerX else PlayerO) alpha beta;
          b2 = snd r
      in case fst r of
           Inl e \<Rightarrow> (Inl e, b2)
         | Inr Undefined \<Rightarrow> (Inl TypeError, b2)
         | Inr (Obj res) \<Rightarrow>
             (let alpha' = (if p = PlayerO then Math_max alpha (Num (score res)) else alpha);
                  beta' = (if p = PlayerO then beta else Math_min beta (Num (score res)));
                  b3 = js_write b2 c Null;
                  moves' = moves @ [\<lparr> index = Some c, score = score res \<rparr>]
              in if js_ge alpha' beta' then (Inr moves', b3)
                 else minimax_loop cs b3 p alpha' beta' moves'))"
  by pat_completeness auto

text \<open>
  \<^verbatim>\<open>getBestMove\<close>: the \<^verbatim>\<open>.index\<close> of what \<^verbatim>\<open>minimax\<close> returns on \<^verbatim>\<open>state.board\<close>, with
  \<open>None\<close> for \<^verbatim>\<open>undefined\<close>, the value of a property that the object does not have.
\<close>

definition getBestMove :: "state \<Rightarrow> (js_error + nat option) \<times> state" where
  "getBestMove s =
     (let r = minimax (board s) PlayerO NegInfinity Infinity;
          s' = s\<lparr> board := snd r \<rparr>
      in case fst r of
           Inl e \<Rightarrow> (Inl e, s')
         | Inr Undefined \<Rightarrow> (Inl TypeError, s')
         | Inr (Obj res) \<Rightarrow> (Inr (index res), s'))"

text \<open>
  \<^verbatim>\<open>getEasyMove\<close>. The argument \<open>k\<close> is the value of
  \<^verbatim>\<open>Math.floor(Math.random() * emptyCells.length)\<close>; reading past the end of
  \<^verbatim>\<open>emptyCells\<close> gives \<^verbatim>\<open>undefined\<close>, here \<open>None\<close>.
\<close>

definition getEasyMove :: "nat \<Rightarrow> state \<Rightarrow> nat option" where
  "getEasyMove k s =
     (let emptyCells = emptyCellsOf (board s)
      in if k < length emptyCells then Some (emptyCells ! k) else None)"

section \<open>Sessions\<close>

text \<open>
  The states that the event handlers of \<^verbatim>\<open>bindEvents\<close> and the computer's reply can
  produce: a call of \<^verbatim>\<open>makeMove\<close> on one of the nine rendered cells, undo, play again,
  new game (which clears the scores first), and a change of mode or difficulty (each
  followed by \<^verbatim>\<open>newGame\<close>). A rejected move or undo leaves the state as it is.
\<close>

inductive reachable :: "state \<Rightarrow> bool" where
  reach_init: "reachable initialState"
| reach_move: "reachable s \<Longrightarrow> i < 9 \<Longrightarrow> reachable (snd (makeMove i p s))"
| reach_undo: "reachable s \<Longrightarrow> undoMove s = Inr s' \<Longrightarrow> reachable s'"
| reach_playAgain: "reachable s \<Longrightarrow> reachable (newGame s)"
| reach_newGame:
    "reachable s \<Longrightarrow> reachable (newGame (s\<lparr> scores := \<lparr> score_X = 0, score_O = 0, score_Draw = 0 \<rparr> \<rparr>))"
| reach_mode: "reachable s \<Longrightarrow> reachable (newGame (s\<lparr> mode := m \<rparr>))"
| reach_difficulty: "reachable s \<Longrightarrow> reachable (newGame (s\<lparr> difficulty := d \<rparr>))"

text \<open>Replaying a move history on a board, first move first.\<close>

definition replay :: "move list \<Rightarrow> board \<Rightarrow> board" where
  "replay h b = foldl (\<lambda>b m. js_write b (move_index m) (Mark (move_player m))) b h"

text \<open>The number of cells of a board that hold a mark.\<close>

definition occupiedCount :: "board \<Rightarrow> nat" where
  "occupiedCount b = length (filter truthy b)"

text \<open>
  The session state after a call of \<^verbatim>\<open>undoMove\<close>: its early return has written nothing,
  so the state is the one before the call.
\<close>

definition stateAfter :: "state \<Rightarrow> 'e + state \<Rightarrow> state" where
  "stateAfter s r = (case r of Inl e \<Rightarrow> s | Inr s' \<Rightarrow> s')"

text \<open>
  While a round is open nobody has three in a row, and never both players have.
\<close>

definition oneWinner :: "state \<Rightarrow> bool" where
  "oneWinner s \<longleftrightarrow>
     (\<not> gameOver s \<longrightarrow> \<not> checkWinOnBoard (board s) PlayerX \<and> \<not> checkWinOnBoard (board s) PlayerO) \<and>
     \<not> (checkWinOnBoard (board s) PlayerX \<and> checkWinOnBoard (board s) PlayerO)"

text \<open>
  The board is the nine-cell board that the history replays to, and no cell occurs twice in
  the history.
\<close>

definition historyMatches :: "state \<Rightarrow> bool" where
  "historyMatches s \<longleftrightarrow>
     length (board s) = 9 \<and> replay (moveHistory s) initialBoard = board s \<and>
     distinct (map move_index (moveHistory s)) \<and> (\<forall>m\<in>set (moveHistory s). move_index m < 9)"

section \<open>The value of a position\<close>

text \<open>
  The numbers of the search in their order, with \<^verbatim>\<open>-Infinity\<close> below and \<^verbatim>\<open>Infinity\<close>
  above every score: \<open>a < b\<close> is \<^verbatim>\<open>b > a\<close>.
\<close>

instantiation js_number :: linorder
begin

definition less_js_number :: "js_number \<Rightarrow> js_number \<Rightarrow> bool" where
  "less_js_number a b = js_gt b a"

definition less_eq_js_number :: "js_number \<Rightarrow> js_number \<Rightarrow> bool" where
  "less_eq_js_number a b = (js_gt b a \<or> a = b)"

instance
proof
  fix x y z :: js_number
  show "(x < y) = (x \<le> y \<and> \<not> y \<le> x)"
    by (cases x; cases y) (auto simp: less_js_number_def less_eq_js_number_def)
  show "x \<le> x" by (simp add: less_eq_js_number_def)
  show "x \<le> y \<Longrightarrow> y \<le> z \<Longrightarrow> x \<le> z"
    by (cases x; cases y; cases z) (auto simp: less_eq_js_number_def)
  show "x \<le> y \<Longrightarrow> y \<le> x \<Longrightarrow> x = y"
    by (cases x; cases y) (auto simp: less_eq_js_number_def)
  show "x \<le> y \<or> y \<le> x"
    by (cases x; cases y) (auto simp: less_eq_js_number_def)
qed

end

text \<open>
  The value of a position with \<open>p\<close> to move, by full search without pruning: -10 when X
  has three in a row, 10 when O has, 0 on a full board, and otherwise the best value of
  the positions after one move, the highest for O and the lowest for X.
\<close>

function gameValue :: "board \<Rightarrow> player \<Rightarrow> int" where
  "gameValue b p =
     (if checkWinOnBoard b PlayerX then - 10
      else if checkWinOnBoard b PlayerO then 10
      else if emptyCellsOf b = [] then 0
      else if p = PlayerO then
        Max ((\<lambda>c. gameValue (js_write b c (Mark PlayerO)) PlayerX) ` set (emptyCellsOf b))
      else
        Min ((\<lambda>c. gameValue (js_write b c (Mark PlayerX)) PlayerO) ` set (emptyCellsOf b)))"
  by pat_completeness auto

text \<open>
  What a score \<open>s\<close> returned for the window from \<open>alpha\<close> to \<open>beta\<close> says about the
  value \<open>v\<close>: above \<open>alpha\<close> it is a lower bound, below \<open>beta\<close> an upper bound.
\<close>

definition bounded :: "int \<Rightarrow> int \<Rightarrow> js_number \<Rightarrow> js_number \<Rightarrow> bool" where
  "bounded s v alpha beta \<longleftrightarrow> (alpha < Num s \<longrightarrow> s \<le> v) \<and> (Num s < beta \<longrightarrow> v \<le> s)"

text \<open>
  A reply table for O: \<open>Reply j sts\<close> answers with cell \<open>j\<close> and goes on with one entry
  of \<open>sts\<close> for each move that X then has, in ascending order of cells; \<open>Full\<close> stands
  where X has filled the board. \<open>holdsO\<close> checks a table on a board with O to move and
  \<open>holdsX\<close> a list of tables on a board with X to move: X never gets three in a row.
\<close>

datatype strategy = Full | Reply nat "strategy list"

fun holdsX :: "board \<Rightarrow> nat list \<Rightarrow> strategy list \<Rightarrow> bool"
  and holdsO :: "board \<Rightarrow> strategy \<Rightarrow> bool" where
  "holdsX b [] [] = True"
| "holdsX b (c # cs) (st # sts) = (holdsO (js_write b c (Mark PlayerX)) st \<and> holdsX b cs sts)"
| "holdsX b [] (st # sts) = False"
| "holdsX b (c # cs) [] = False"
| "holdsO b Full = (\<not> checkWinOnBoard b PlayerX \<and> emptyCellsOf b = [])"
| "holdsO b (Reply j sts) =
     (if checkWinOnBoard b PlayerX then False
      else if js_read b j \<noteq> Null then False
      else let b' = js_write b j (Mark PlayerO) in
        if checkWinOnBoard b' PlayerO then True
        else let cs = emptyCellsOf b' in
          if cs = [] then True else holdsX b' cs sts)"

definition replyTo0 :: strategy where
  "replyTo0 = Reply 4 [Reply 2 [Reply 6 [], Reply 6 [], Reply 3 [Reply 7 [Full], Reply 5 [], Reply 5 []], Reply 6 [], Reply 6 []], Reply 1 [Reply 7 [], Reply 7 [], Reply 7 [], Reply 3 [Reply 8 [Full], Reply 5 [], Reply 5 []], Reply 7 []], Reply 6 [Reply 2 [], Reply 1 [Reply 7 [], Reply 5 [Full], Reply 7 []], Reply 2 [], Reply 2 [], Reply 2 []], Reply 1 [Reply 7 [], Reply 7 [], Reply 7 [], Reply 6 [Reply 8 [Full], Reply 2 [], Reply 2 []], Reply 7 []], Reply 3 [Reply 5 [], Reply 5 [], Reply 1 [Reply 7 [], Reply 8 [Full], Reply 7 []], Reply 5 [], Reply 5 []], Reply 3 [Reply 5 [], Reply 5 [], Reply 2 [Reply 6 [], Reply 8 [Full], Reply 6 []], Reply 5 [], Reply 5 []], Reply 1 [Reply 7 [], Reply 7 [], Reply 7 [], Reply 7 [], Reply 6 [Reply 5 [Full], Reply 2 [], Reply 2 []]]]"

definition replyTo1 :: strategy where
  "replyTo1 = Reply 4 [Reply 2 [Reply 6 [], Reply 6 [], Reply 3 [Reply 7 [Full], Reply 5 [], Reply 5 []], Reply 6 [], Reply 6 []], Reply 0 [Reply 8 [], Reply 8 [], Reply 8 [], Reply 8 [], Reply 5 [Reply 6 [Full], Reply 3 [], Reply 3 []]], Reply 0 [Reply 8 [], Reply 8 [], Reply 8 [], Reply 8 [], Reply 2 [Reply 6 [], Reply 7 [Full], Reply 6 []]], Reply 0 [Reply 8 [], Reply 8 [], Reply 8 [], Reply 8 [], Reply 2 [Reply 6 [], Reply 7 [Full], Reply 6 []]], Reply 3 [Reply 5 [], Reply 5 [], Reply 8 [Reply 2 [Full], Reply 0 [], Reply 0 []], Reply 5 [], Reply 5 []], Reply 0 [Reply 8 [], Reply 8 [], Reply 8 [], Reply 8 [], Reply 6 [Reply 3 [], Reply 2 [], Reply 2 []]], Reply 3 [Reply 5 [], Reply 5 [], Reply 2 [Reply 6 [], Reply 7 [Full], Reply 6 []], Reply 5 [], Reply 5 []]]"

definition replyTo2 :: strategy where
  "replyTo2 = Reply 4 [Reply 1 [Reply 7 [], Reply 7 [], Reply 7 [], Reply 3 [Reply 8 [Full], Reply 5 [], Reply 5 []], Reply 7 []], Reply 0 [Reply 8 [], Reply 8 [], Reply 8 [], Reply 8 [], Reply 5 [Reply 6 [Full], Reply 3 [], Reply 3 []]], Reply 1 [Reply 7 [], Reply 7 [], Reply 7 [], Reply 8 [Reply 6 [Full], Reply 0 [], Reply 0 []], Reply 7 []], Reply 8 [Reply 1 [Reply 7 [], Reply 7 [], Reply 3 [Full]], Reply 0 [], Reply 0 [], Reply 0 [], Reply 0 []], Reply 1 [Reply 7 [], Reply 7 [], Reply 7 [], Reply 8 [Reply 3 [Full], Reply 0 [], Reply 0 []], Reply 7 []], Reply 3 [Reply 5 [], Reply 5 [], Reply 8 [Reply 1 [Full], Reply 0 [], Reply 0 []], Reply 5 [], Reply 5 []], Reply 5 [Reply 3 [], Reply 3 [], Reply 1 [Reply 7 [], Reply 7 [], Reply 6 [Full]], Reply 3 [], Reply 3 []]]"

definition replyTo3 :: strategy where
  "replyTo3 = Reply 4 [Reply 6 [Reply 2 [], Reply 1 [Reply 7 [], Reply 5 [Full], Reply 7 []], Reply 2 [], Reply 2 [], Reply 2 []], Reply 0 [Reply 8 [], Reply 8 [], Reply 8 [], Reply 8 [], Reply 2 [Reply 6 [], Reply 7 [Full], Reply 6 []]], Reply 1 [Reply 7 [], Reply 7 [], Reply 7 [], Reply 8 [Reply 6 [Full], Reply 0 [], Reply 0 []], Reply 7 []], Reply 0 [Reply 8 [], Reply 8 [], Reply 8 [], Reply 8 [], Reply 2 [Reply 6 [], Reply 1 [], Reply 1 []]], Reply 0 [Reply 8 [], Reply 8 [], Reply 8 [], Reply 8 [], Reply 7 [Reply 2 [Full], Reply 1 [], Reply 1 []]], Reply 0 [Reply 8 [], Reply 8 [], Reply 8 [], Reply 8 [], Reply 6 [Reply 2 [], Reply 5 [Full], Reply 2 []]], Reply 1 [Reply 7 [], Reply 7 [], Reply 7 [], Reply 7 [], Reply 6 [Reply 2 [], Reply 5 [Full], Reply 2 []]]]"

definition replyTo4 :: strategy where
  "replyTo4 = Reply 0 [Reply 7 [Reply 6 [Reply 8 [], Reply 3 [], Reply 3 []], Reply 5 [Reply 6 [Full], Reply 2 [Full], Reply 2 [Full]], Reply 3 [Reply 6 [], Reply 2 [Full], Reply 6 []], Reply 2 [Reply 5 [Full], Reply 3 [Full], Reply 3 [Full]], Reply 3 [Reply 6 [], Reply 6 [], Reply 2 [Full]]], Reply 6 [Reply 3 [], Reply 5 [Reply 7 [Full], Reply 1 [Full], Reply 1 [Full]], Reply 3 [], Reply 3 [], Reply 3 []], Reply 5 [Reply 7 [Reply 6 [Full], Reply 2 [Full], Reply 2 [Full]], Reply 6 [Reply 7 [Full], Reply 1 [Full], Reply 1 [Full]], Reply 2 [Reply 8 [], Reply 1 [], Reply 1 []], Reply 1 [Reply 6 [Full], Reply 2 [], Reply 2 []], Reply 1 [Reply 6 [Full], Reply 2 [], Reply 2 []]], Reply 3 [Reply 6 [], Reply 6 [], Reply 2 [Reply 7 [Full], Reply 1 [], Reply 1 []], Reply 6 [], Reply 6 []], Reply 2 [Reply 7 [Reply 5 [Full], Reply 3 [Full], Reply 3 [Full]], Reply 1 [], Reply 1 [], Reply 1 [], Reply 1 []], Reply 1 [Reply 6 [Reply 5 [Full], Reply 3 [], Reply 3 []], Reply 2 [], Reply 2 [], Reply 2 [], Reply 2 []], Reply 2 [Reply 7 [Reply 5 [Full], Reply 3 [Full], Reply 3 [Full]], Reply 1 [], Reply 1 [], Reply 1 [], Reply 1 []]]"

definition replyTo5 :: strategy where
  "replyTo5 = Reply 4 [Reply 1 [Reply 7 [], Reply 7 [], Reply 7 [], Reply 6 [Reply 8 [Full], Reply 2 [], Reply 2 []], Reply 7 []], Reply 0 [Reply 8 [], Reply 8 [], Reply 8 [], Reply 8 [], Reply 2 [Reply 6 [], Reply 7 [Full], Reply 6 []]], Reply 8 [Reply 1 [Reply 7 [], Reply 7 [], Reply 3 [Full]], Reply 0 [], Reply 0 [], Reply 0 [], Reply 0 []], Reply 0 [Reply 8 [], Reply 8 [], Reply 8 [], Reply 8 [], Reply 2 [Reply 6 [], Reply 1 [], Reply 1 []]], Reply 1 [Reply 7 [], Reply 7 [], Reply 7 [], Reply 8 [Reply 3 [Full], Reply 0 [], Reply 0 []], Reply 7 []], Reply 2 [Reply 6 [], Reply 6 [], Reply 6 [], Reply 8 [Reply 3 [Full], Reply 0 [], Reply 0 []], Reply 6 []], Reply 2 [Reply 6 [], Reply 6 [], Reply 6 [], Reply 7 [Reply 1 [], Reply 0 [Full], Reply 1 []], Reply 6 []]]"

definition replyTo6 :: strategy where
  "replyTo6 = Reply 4 [Reply 3 [Reply 5 [], Reply 5 [], Reply 1 [Reply 7 [], Reply 8 [Full], Reply 7 []], Reply 5 [], Reply 5 []], Reply 3 [Reply 5 [], Reply 5 [], Reply 8 [Reply 2 [Full], Reply 0 [], Reply 0 []], Reply 5 [], Reply 5 []], Reply 1 [Reply 7 [], Reply 7 [], Reply 7 [], Reply 8 [Reply 3 [Full], Reply 0 [], Reply 0 []], Reply 7 []], Reply 0 [Reply 8 [], Reply 8 [], Reply 8 [], Reply 8 [], Reply 7 [Reply 2 [Full], Reply 1 [], Reply 1 []]], Reply 1 [Reply 7 [], Reply 7 [], Reply 7 [], Reply 8 [Reply 3 [Full], Reply 0 [], Reply 0 []], Reply 7 []], Reply 8 [Reply 3 [Reply 5 [], Reply 5 [], Reply 1 [Full]], Reply 0 [], Reply 0 [], Reply 0 [], Reply 0 []], Reply 7 [Reply 1 [], Reply 3 [Reply 5 [], Reply 5 [], Reply 2 [Full]], Reply 1 [], Reply 1 [], Reply 1 []]]"

definition replyTo7 :: strategy where
  "replyTo7 = Reply 4 [Reply 3 [Reply 5 [], Reply 5 [], Reply 2 [Reply 6 [], Reply 8 [Full], Reply 6 []], Reply 5 [], Reply 5 []], Reply 0 [Reply 8 [], Reply 8 [], Reply 8 [], Reply 8 [], Reply 6 [Reply 3 [], Reply 2 [], Reply 2 []]], Reply 3 [Reply 5 [], Reply 5 [], Reply 8 [Reply 1 [Full], Reply 0 [], Reply 0 []], Reply 5 [], Reply 5 []], Reply 0 [Reply 8 [], Reply 8 [], Reply 8 [], Reply 8 [], Reply 6 [Reply 2 [], Reply 5 [Full], Reply 2 []]], Reply 2 [Reply 6 [], Reply 6 [], Reply 6 [], Reply 8 [Reply 3 [Full], Reply 0 [], Reply 0 []], Reply 6 []], Reply 8 [Reply 3 [Reply 5 [], Reply 5 [], Reply 1 [Full]], Reply 0 [], Reply 0 [], Reply 0 [], Reply 0 []], Reply 6 [Reply 2 [], Reply 2 [], Reply 5 [Reply 3 [], Reply 3 [], Reply 0 [Full]], Reply 2 [], Reply 2 []]]"

definition replyTo8 :: strategy where
  "replyTo8 = Reply 4 [Reply 1 [Reply 7 [], Reply 7 [], Reply 7 [], Reply 7 [], Reply 6 [Reply 5 [Full], Reply 2 [], Reply 2 []]], Reply 3 [Reply 5 [], Reply 5 [], Reply 2 [Reply 6 [], Reply 7 [Full], Reply 6 []], Reply 5 [], Reply 5 []], Reply 5 [Reply 3 [], Reply 3 [], Reply 1 [Reply 7 [], Reply 7 [], Reply 6 [Full]], Reply 3 [], Reply 3 []], Reply 1 [Reply 7 [], Reply 7 [], Reply 7 [], Reply 7 [], Reply 6 [Reply 2 [], Reply 5 [Full], Reply 2 []]], Reply 2 [Reply 6 [], Reply 6 [], Reply 6 [], Reply 7 [Reply 1 [], Reply 0 [Full], Reply 1 []], Reply 6 []], Reply 7 [Reply 1 [], Reply 3 [Reply 5 [], Reply 5 [], Reply 2 [Full]], Reply 1 [], Reply 1 [], Reply 1 []], Reply 6 [Reply 2 [], Reply 2 [], Reply 5 [Reply 3 [], Reply 3 [], Reply 0 [Full]], Reply 2 [], Reply 2 []]]"

text \<open>
  A game of the unbeatable computer: X starts and plays any free cell of the nine when it
  is X's turn, O plays the cell that \<^verbatim>\<open>getBestMove\<close> returns.
\<close>

inductive played :: "state \<Rightarrow> bool" where
  play_start: "played (initialState\<lparr> mode := m, difficulty := d, scores := sc \<rparr>)"
| play_X: "played s \<Longrightarrow> currentPlayer s = PlayerX \<Longrightarrow> i < 9 \<Longrightarrow>
           played (snd (makeMove i PlayerX s))"
| play_O: "played s \<Longrightarrow> currentPlayer s = PlayerO \<Longrightarrow> \<not> gameOver s \<Longrightarrow>
           getBestMove s = (Inr (Some i), s1) \<Longrightarrow> played (snd (makeMove i PlayerO s1))"

text \<open>
  What holds during such a game: the board has its nine cells, X has no three in a row, a
  finished round is a win of O or a full board, and in an open round the player to move
  faces a position of value 0 or more.
\<close>

definition holding :: "state \<Rightarrow> bool" where
  "holding s \<longleftrightarrow>
     length (board s) = 9 \<and> Hole \<notin> set (board s) \<and> \<not> checkWinOnBoard (board s) PlayerX \<and>
     (if gameOver s then checkWinOnBoard (board s) PlayerO \<or> emptyCellsOf (board s) = []
      else \<not> checkWinOnBoard (board s) PlayerO \<and> emptyCellsOf (board s) \<noteq> [] \<and>
           0 \<le> gameValue (board s) (currentPlayer s))"

section \<open>Termination of the search\<close>

lemma js_read_write: "js_read (js_write b i v) j = (if j = i then v else js_read b j)"
  by (auto simp: js_read_def js_write_def nth_append nth_list_update)

lemma js_write_restore:
  "c < length b \<Longrightarrow> b ! c = Null \<Longrightarrow> js_write (js_write b c v) c Null = b"
  by (simp add: js_write_def list_update_same_conv)

lemma set_emptyCellsOf: "set (emptyCellsOf b) = {i. i < length b \<and> b ! i = Null}"
  by (force simp: emptyCellsOf_def in_set_enumerate_eq)

lemma nulls_emptyCellsOf: "set (emptyCellsOf b) = {i. js_read b i = Null}"
  by (auto simp: set_emptyCellsOf js_read_def)

lemma finite_nulls: "finite {i. js_read b i = Null}"
proof (rule finite_subset)
  show "{i. js_read b i = Null} \<subseteq> {..<length b}"
    by (auto simp: js_read_def split: if_splits)
qed simp

lemma nulls_write_Mark:
  "{i. js_read (js_write b c (Mark p)) i = Null} = {i. js_read b i = Null} - {c}"
  by (auto simp: js_read_write)

text \<open>The selection scans, as folds from the left.\<close>

lemma scanMax_snoc:
  "scanMax (ms @ [m]) i st =
     (let r = scanMax ms i st in
      if js_gt (Num (score m)) (fst r) then (Num (score m), Some (i + length ms)) else r)"
proof (induction ms arbitrary: i st)
  case Nil
  then show ?case by (cases st) simp
next
  case (Cons a ms)
  then show ?case by (cases st) (simp add: Let_def)
qed

lemma scanMin_snoc:
  "scanMin (ms @ [m]) i st =
     (let r = scanMin ms i st in
      if js_lt (Num (score m)) (fst r) then (Num (score m), Some (i + length ms)) else r)"
proof (induction ms arbitrary: i st)
  case Nil
  then show ?case by (cases st) simp
next
  case (Cons a ms)
  then show ?case by (cases st) (simp add: Let_def)
qed

lemma scanMax_first:
  "ms \<noteq> [] \<Longrightarrow>
   \<exists>k. k < length ms \<and> scanMax ms 0 (NegInfinity, None) = (Num (score (ms ! k)), Some k) \<and>
       (\<forall>j<length ms. score (ms ! j) \<le> score (ms ! k)) \<and>
       (\<forall>j<k. score (ms ! j) < score (ms ! k))"
proof (induction ms rule: rev_induct)
  case Nil
  then show ?case by simp
next
  case (snoc m ms)
  show ?case
  proof (cases "ms = []")
    case True
    then show ?thesis by simp
  next
    case False
    with snoc.IH obtain k where k: "k < length ms"
      "scanMax ms 0 (NegInfinity, None) = (Num (score (ms ! k)), Some k)"
      "\<forall>j<length ms. score (ms ! j) \<le> score (ms ! k)" "\<forall>j<k. score (ms ! j) < score (ms ! k)"
      by blast
    show ?thesis
    proof (cases "score m > score (ms ! k)")
      case True
      have "\<forall>j<length (ms @ [m]). score ((ms @ [m]) ! j) \<le> score m"
        using k(3) True by (auto simp: nth_append less_Suc_eq)
      moreover have "\<forall>j<length ms. score ((ms @ [m]) ! j) < score m"
        using k(3) True by (auto simp: nth_append less_Suc_eq)
      ultimately show ?thesis using True k(2)
        by (intro exI[of _ "length ms"]) (simp add: scanMax_snoc)
    next
      case False
      have "\<forall>j<length (ms @ [m]). score ((ms @ [m]) ! j) \<le> score (ms ! k)"
        using k(3) False by (auto simp: nth_append less_Suc_eq)
      then show ?thesis using False k
        by (intro exI[of _ k]) (simp add: scanMax_snoc nth_append)
    qed
  qed
qed

lemma scanMin_first:
  "ms \<noteq> [] \<Longrightarrow>
   \<exists>k. k < length ms \<and> scanMin ms 0 (Infinity, None) = (Num (score (ms ! k)), Some k) \<and>
       (\<forall>j<length ms. score (ms ! k) \<le> score (ms ! j)) \<and>
       (\<forall>j<k. score (ms ! k) < score (ms ! j))"
proof (induction ms rule: rev_induct)
  case Nil
  then show ?case by simp
next
  case (snoc m ms)
  show ?case
  proof (cases "ms = []")
    case True
    then show ?thesis by (simp add: js_lt_def)
  next
    case False
    with snoc.IH obtain k where k: "k < length ms"
      "scanMin ms 0 (Infinity, None) = (Num (score (ms ! k)), Some k)"
      "\<forall>j<length ms. score (ms ! k) \<le> score (ms ! j)" "\<forall>j<k. score (ms ! k) < score (ms ! j)"
      by blast
    show ?thesis
    proof (cases "score m < score (ms ! k)")
      case True
      have "\<forall>j<length (ms @ [m]). score m \<le> score ((ms @ [m]) ! j)"
        using k(3) True by (auto simp: nth_append less_Suc_eq)
      moreover have "\<forall>j<length ms. score m < score ((ms @ [m]) ! j)"
        using k(3) True by (auto simp: nth_append less_Suc_eq)
      ultimately show ?thesis using True k(2)
        by (intro exI[of _ "length ms"]) (simp add: scanMin_snoc js_lt_def)
    next
      case False
      have "\<forall>j<length (ms @ [m]). score (ms ! k) \<le> score ((ms @ [m]) ! j)"
        using k(3) False by (auto simp: nth_append less_Suc_eq)
      then show ?thesis using False k
        by (intro exI[of _ k]) (simp add: scanMin_snoc nth_append js_lt_def)
    qed
  qed
qed

text \<open>What the selection returns from a non-empty list of moves.\<close>

lemma selectBest_first:
  assumes "ms \<noteq> []"
  shows "\<exists>k. k < length ms \<and> selectBest p ms = Obj (ms ! k) \<and>
       (\<forall>j<length ms. if p = PlayerO then score (ms ! j) \<le> score (ms ! k)
                        else score (ms ! k) \<le> score (ms ! j)) \<and>
       (\<forall>j<k. score (ms ! j) \<noteq> score (ms ! k))"
proof (cases "p = PlayerO")
  case True
  from scanMax_first[OF assms] obtain k where "k < length ms"
    "scanMax ms 0 (NegInfinity, None) = (Num (score (ms ! k)), Some k)"
    "\<forall>j<length ms. score (ms ! j) \<le> score (ms ! k)" "\<forall>j<k. score (ms ! j) < score (ms ! k)"
    by blast
  then show ?thesis using True
    by (intro exI[of _ k]) (auto simp: selectBest_def)
next
  case False
  from scanMin_first[OF assms] obtain k where "k < length ms"
    "scanMin ms 0 (Infinity, None) = (Num (score (ms ! k)), Some k)"
    "\<forall>j<length ms. score (ms ! k) \<le> score (ms ! j)" "\<forall>j<k. score (ms ! k) < score (ms ! j)"
    by blast
  then show ?thesis using False
    by (intro exI[of _ k]) (auto simp: selectBest_def)
qed

text \<open>
  Inside its domain the search gives the board back as it got it, and returns an object.
  The loop does so when it runs over cells that are \<^verbatim>\<open>null\<close>.
\<close>

lemma minimax_dom_restores:
  "minimax_minimax_loop_dom (Inl (b, p, alpha, beta)) \<Longrightarrow>
     snd (minimax b p alpha beta) = b \<and> (\<exists>res. fst (minimax b p alpha beta) = Inr (Obj res))"
  "minimax_minimax_loop_dom (Inr (cs, b, p, alpha, beta, moves)) \<Longrightarrow>
     (\<forall>c\<in>set cs. c < length b \<and> b ! c = Null) \<longrightarrow>
     snd (minimax_loop cs b p alpha beta moves) = b \<and>
     (\<exists>ms. fst (minimax_loop cs b p alpha beta moves) = Inr ms \<and>
           (cs \<noteq> [] \<or> moves \<noteq> [] \<longrightarrow> ms \<noteq> []))"
proof (induction rule: minimax_minimax_loop.pinduct)
  case (1 currentBoard p alpha beta)
  show ?case
  proof (cases "checkWinOnBoard currentBoard PlayerX \<or> checkWinOnBoard currentBoard PlayerO
                \<or> length (emptyCellsOf currentBoard) = 0")
    case True
    then show ?thesis using 1(1) by (auto simp: minimax.psimps Let_def)
  next
    case False
    then have ne: "emptyCellsOf currentBoard \<noteq> []" by auto
    have "\<forall>c\<in>set (emptyCellsOf currentBoard). c < length currentBoard \<and> currentBoard ! c = Null"
      by (simp add: set_emptyCellsOf)
    with 1(2)[OF refl] False
    obtain ms where ms:
      "snd (minimax_loop (emptyCellsOf currentBoard) currentBoard p alpha beta []) = currentBoard"
      "fst (minimax_loop (emptyCellsOf currentBoard) currentBoard p alpha beta []) = Inr ms"
      "ms \<noteq> []"
      using ne by auto
    from selectBest_first[OF ms(3), of p] obtain k where "selectBest p ms = Obj (ms ! k)"
      by blast
    then show ?thesis using 1(1) False ms
      by (auto simp: minimax.psimps Let_def)
  qed
next
  case (2 b p alpha beta moves)
  then show ?case by (simp add: minimax_loop.psimps)
next
  case (3 c cs b p alpha beta moves)
  show ?case
  proof
    assume good: "\<forall>c\<in>set (c # cs). c < length b \<and> b ! c = Null"
    let ?b1 = "js_write b c (Mark p)"
    let ?r = "minimax ?b1 (if p = PlayerO then PlayerX else PlayerO) alpha beta"
    from 3(2)[OF refl] obtain res where r: "snd ?r = ?b1" "fst ?r = Inr (Obj res)" by auto
    have b3: "js_write (snd ?r) c Null = b" using good r by (simp add: js_write_restore)
    let ?a = "(if p = PlayerO then Math_max alpha (Num (score res)) else alpha)"
    let ?be = "(if p = PlayerO then beta else Math_min beta (Num (score res)))"
    let ?ms = "moves @ [\<lparr>index = Some c, score = score res\<rparr>]"
    show "snd (minimax_loop (c # cs) b p alpha beta moves) = b \<and>
      (\<exists>ms. fst (minimax_loop (c # cs) b p alpha beta moves) = Inr ms \<and>
            (c # cs \<noteq> [] \<or> moves \<noteq> [] \<longrightarrow> ms \<noteq> []))"
    proof (cases "js_ge ?a ?be")
      case True
      then show ?thesis using 3(1) r b3 by (simp add: minimax_loop.psimps Let_def)
    next
      case False
      have "snd (minimax_loop cs b p ?a ?be ?ms) = b \<and>
        (\<exists>ms. fst (minimax_loop cs b p ?a ?be ?ms) = Inr ms \<and> (cs \<noteq> [] \<or> ?ms \<noteq> [] \<longrightarrow> ms \<noteq> []))"
        using 3(3)[OF refl refl refl r(2) refl refl refl refl refl False] good b3 by simp
      then show ?thesis using 3(1) r b3 False by (simp add: minimax_loop.psimps Let_def)
    qed
  qed
qed

text \<open>
  Every call returns: the cells that are \<^verbatim>\<open>null\<close> or still to be visited by the loop never
  grow in number, a recursive call has one fewer, and the loop has one cell less to visit.
\<close>

termination minimax
proof (relation "inv_image (less_than <*lex*> less_than <*lex*> less_than)
      (\<lambda>x. case x of
         Inl (b, p, alpha, beta) \<Rightarrow> (card {i. js_read b i = Null}, Suc 0, 0)
       | Inr (cs, b, p, alpha, beta, moves) \<Rightarrow>
           (card ({i. js_read b i = Null} \<union> set cs), 0, length cs))", goal_cases)
  case 1
  then show ?case by (intro wf_inv_image wf_lex_prod wf_less_than)
next
  case (2 currentBoard p alpha beta x)
  then show ?case by (simp add: nulls_emptyCellsOf)
next
  case (3 c cs b p alpha beta moves x)
  have "{i. js_read b i = Null} - {c} \<subset> {i. js_read b i = Null} \<union> set (c # cs)" by auto
  then have "card ({i. js_read b i = Null} - {c}) < card ({i. js_read b i = Null} \<union> set (c # cs))"
    by (intro psubset_card_mono) (simp_all add: finite_nulls)
  then show ?case using 3 by (simp add: nulls_write_Mark)
next
  case (4 c cs b p alpha beta moves x xa xb ba x2 xc xd xe xf)
  have "snd xa = x" using 4 minimax_dom_restores(1) by simp
  then have "{i. js_read xe i = Null} = insert c {i. js_read b i = Null}"
    using 4 by (auto simp: js_read_write)
  then show ?case by simp
qed

declare minimax.simps [simp del] minimax_loop.simps [simp del]

termination gameValue
proof (relation "measure (\<lambda>(b, p). card {i. js_read b i = Null})", goal_cases)
  case 1
  then show ?case by simp
next
  case (2 b p c)
  then have "c \<in> {i. js_read b i = Null}" by (simp add: nulls_emptyCellsOf)
  then have "card ({i. js_read b i = Null} - {c}) < card {i. js_read b i = Null}"
    by (intro card_Diff1_less) (simp_all add: finite_nulls)
  then show ?case by (simp add: nulls_write_Mark)
next
  case (3 b p c)
  then have "c \<in> {i. js_read b i = Null}" by (simp add: nulls_emptyCellsOf)
  then have "card ({i. js_read b i = Null} - {c}) < card {i. js_read b i = Null}"
    by (intro card_Diff1_less) (simp_all add: finite_nulls)
  then show ?case by (simp add: nulls_write_Mark)
qed

declare gameValue.simps [simp del]

lemma minimax_all_dom:
  "minimax_minimax_loop_dom (Inl (b, p, alpha, beta))"
  "minimax_minimax_loop_dom (Inr (cs, b, p, alpha, beta, moves))"
  by (induction b p alpha beta and cs b p alpha beta moves rule: minimax_minimax_loop.induct)
     (auto intro: minimax_minimax_loop.domintros)

lemma minimax_restores:
  "snd (minimax b p alpha beta) = b \<and> (\<exists>res. fst (minimax b p alpha beta) = Inr (Obj res))"
  using minimax_dom_restores(1) minimax_all_dom(1) by blast

lemma minimax_loop_restores:
  "\<forall>c\<in>set cs. c < length b \<and> b ! c = Null \<Longrightarrow>
     snd (minimax_loop cs b p alpha beta moves) = b \<and>
     (\<exists>ms. fst (minimax_loop cs b p alpha beta moves) = Inr ms \<and>
           (cs \<noteq> [] \<or> moves \<noteq> [] \<longrightarrow> ms \<noteq> []))"
  using minimax_dom_restores(2) minimax_all_dom(2) by blast

section \<open>Moves, undo and the history\<close>

lemma everyCell_iff: "everyCell b \<longleftrightarrow> Null \<notin> set b"
proof -
  have "(c = Hole \<or> truthy c) = (c \<noteq> Null)" for c by (cases c) simp_all
  then show ?thesis by (auto simp add: everyCell_def list_all_iff)
qed

lemma checkWin_board: "checkWin s p = checkWinOnBoard (board s) p"
  by (simp add: checkWin_def checkWinOnBoard_def)

lemma makeMove_rejected:
  "truthy (js_read (board s) i) \<or> gameOver s \<Longrightarrow> makeMove i p s = (JsUndefined, s)"
  by (simp add: makeMove_def)

lemma makeMove_accepted:
  assumes "\<not> gameOver s" "\<not> truthy (js_read (board s) i)"
  shows "makeMove i p s = (JsUndefined,
    (let b' = js_write (board s) i (Mark p);
         h' = moveHistory s @ [\<lparr> move_index = i, move_player = p \<rparr>]
     in if checkWinOnBoard b' p then
          s\<lparr> board := b', moveHistory := h', scores := incrementScore p (scores s),
             gameOver := True \<rparr>
        else if everyCell b' then
          s\<lparr> board := b', moveHistory := h',
             scores := (scores s)\<lparr> score_Draw := js_increment (score_Draw (scores s)) \<rparr>,
             gameOver := True \<rparr>
        else
          s\<lparr> board := b', moveHistory := h',
             currentPlayer := (if currentPlayer s = PlayerX then PlayerO else PlayerX) \<rparr>))"
  using assms by (simp add: makeMove_def Let_def checkWin_board endGame_def)

lemma makeMove_moved:
  assumes "snd (makeMove i p s) = s'" "\<not> gameOver s" "\<not> truthy (js_read (board s) i)"
  shows "\<not> gameOver s" "\<not> truthy (js_read (board s) i)"
    "board s' = js_write (board s) i (Mark p)"
    "moveHistory s' = moveHistory s @ [\<lparr> move_index = i, move_player = p \<rparr>]"
    "mode s' = mode s" "difficulty s' = difficulty s"
    "gameOver s' \<longleftrightarrow> checkWinOnBoard (board s') p \<or> everyCell (board s')"
    "currentPlayer s' = (if gameOver s' then currentPlayer s
                         else if currentPlayer s = PlayerX then PlayerO else PlayerX)"
proof -
  show g: "\<not> gameOver s" and t: "\<not> truthy (js_read (board s) i)"
    using assms by simp_all
  note mm = assms(1)[unfolded makeMove_accepted[OF g t] Let_def snd_conv]
  show "board s' = js_write (board s) i (Mark p)"
    using mm by (auto split: if_splits)
  show "moveHistory s' = moveHistory s @ [\<lparr> move_index = i, move_player = p \<rparr>]"
    using mm by (auto split: if_splits)
  show "mode s' = mode s" using mm by (auto split: if_splits)
  show "difficulty s' = difficulty s" using mm by (auto split: if_splits)
  show "gameOver s' \<longleftrightarrow> checkWinOnBoard (board s') p \<or> everyCell (board s')"
    using mm g by (auto split: if_splits)
  show "currentPlayer s' = (if gameOver s' then currentPlayer s
                         else if currentPlayer s = PlayerX then PlayerO else PlayerX)"
    using mm g by (auto split: if_splits)
qed

lemma undoMove_Inr:
  assumes "undoMove s = Inr s'"
  shows "\<not> gameOver s" "moveHistory s \<noteq> []"
    "\<exists>n cp. s' = ((popMove ^^ n) s)\<lparr> currentPlayer := cp \<rparr>"
proof -
  have g: "\<not> (length (moveHistory s) = 0 \<or> gameOver s)"
    using assms by (rule_tac ccontr) (simp add: undoMove_def)
  then show "\<not> gameOver s" "moveHistory s \<noteq> []" by simp_all
  let ?n = "if mode s = VsComputer \<and> length (moveHistory s) > 1 then 2 else 1 :: nat"
  let ?s1 = "(popMove ^^ ?n) s"
  let ?cp = "if length (moveHistory ?s1) > 0
             then (if move_player (last (moveHistory ?s1)) = PlayerX then PlayerO else PlayerX)
             else PlayerX"
  have "undoMove s = Inr (?s1\<lparr> currentPlayer := ?cp \<rparr>)"
    using g by (simp only: undoMove_def Let_def if_False)
  then have "s' = ?s1\<lparr> currentPlayer := ?cp \<rparr>" using assms by simp
  then show "\<exists>n cp. s' = ((popMove ^^ n) s)\<lparr> currentPlayer := cp \<rparr>" by blast
qed

lemma popMove_fields:
  "gameOver (popMove s) = gameOver s" "scores (popMove s) = scores s"
  "mode (popMove s) = mode s" "difficulty (popMove s) = difficulty s"
  by (simp_all add: popMove_def split: list.splits)

lemma funpow_popMove_fields:
  "gameOver ((popMove ^^ n) s) = gameOver s" "scores ((popMove ^^ n) s) = scores s"
  "mode ((popMove ^^ n) s) = mode s" "difficulty ((popMove ^^ n) s) = difficulty s"
  by (induction n) (simp_all add: popMove_fields)

text \<open>The first move of a round, on the centre cell.\<close>

lemma makeMove_first:
  "makeMove 4 PlayerX initialState = (JsUndefined,
     \<lparr> board = [Null, Null, Null, Null, Mark PlayerX, Null, Null, Null, Null],
       currentPlayer = PlayerO, mode = TwoPlayers, difficulty = Easy, gameOver = False,
       scores = \<lparr> score_X = 0, score_O = 0, score_Draw = 0 \<rparr>,
       moveHistory = [\<lparr> move_index = 4, move_player = PlayerX \<rparr>] \<rparr>)"
  by (simp add: makeMove_def initialState_def initialBoard_def js_read_def js_write_def Let_def
      checkWin_def winPatterns_def everyCell_def numeral_eq_Suc)

lemma reachable_first:
  "reachable
     \<lparr> board = [Null, Null, Null, Null, Mark PlayerX, Null, Null, Null, Null],
       currentPlayer = PlayerO, mode = TwoPlayers, difficulty = Easy, gameOver = False,
       scores = \<lparr> score_X = 0, score_O = 0, score_Draw = 0 \<rparr>,
       moveHistory = [\<lparr> move_index = 4, move_player = PlayerX \<rparr>] \<rparr>"
  using reach_move[OF reach_init, of 4 PlayerX] makeMove_first by simp

text \<open>
  Claim C2. A move on an empty cell of an open round writes the player's mark into
  the cell and appends the move to the history. Then exactly one of three things happens,
  tried in this order: the mover has completed a win pattern, and the mover's tally counts
  one up, the two other tallies stay and the round is over; or no cell is empty any more,
  and the draw tally counts one up, the two other tallies stay and the round is over; or
  the turn passes to the other player and no tally changes. A winning move on the last
  empty cell is therefore a win and not a draw. A tally counts one up as long as it is below
  2^53 = 9007199254740992; a tally that has reached 2^53 stays there, since a JavaScript
  number does not count on from it.
\<close>

theorem makeMove_settles:
  assumes "\<not> gameOver s" "i < length (board s)" "board s ! i = Null"
  shows "\<exists>s'. makeMove i p s = (JsUndefined, s') \<and>
     board s' = (board s)[i := Mark p] \<and>
     moveHistory s' = moveHistory s @ [\<lparr> move_index = i, move_player = p \<rparr>] \<and>
     mode s' = mode s \<and> difficulty s' = difficulty s \<and>
     (if checkWinOnBoard (board s') p then
        gameOver s' \<and> currentPlayer s' = currentPlayer s \<and>
        score_Draw (scores s') = score_Draw (scores s) \<and>
        (if p = PlayerX then
           (score_X (scores s) < 9007199254740992 \<longrightarrow>
              score_X (scores s') = score_X (scores s) + 1) \<and>
           (score_X (scores s) = 9007199254740992 \<longrightarrow>
              score_X (scores s') = 9007199254740992) \<and>
           score_O (scores s') = score_O (scores s)
         else
           (score_O (scores s) < 9007199254740992 \<longrightarrow>
              score_O (scores s') = score_O (scores s) + 1) \<and>
           (score_O (scores s) = 9007199254740992 \<longrightarrow>
              score_O (scores s') = 9007199254740992) \<and>
           score_X (scores s') = score_X (scores s))
      else if Null \<notin> set (board s') then
        gameOver s' \<and> currentPlayer s' = currentPlayer s \<and>
        (score_Draw (scores s) < 9007199254740992 \<longrightarrow>
           score_Draw (scores s') = score_Draw (scores s) + 1) \<and>
        (score_Draw (scores s) = 9007199254740992 \<longrightarrow>
           score_Draw (scores s') = 9007199254740992) \<and>
        score_X (scores s') = score_X (scores s) \<and> score_O (scores s') = score_O (scores s)
      else
        scores s' = scores s \<and> \<not> gameOver s' \<and>
        currentPlayer s' = (if currentPlayer s = PlayerX then PlayerO else PlayerX))"
proof -
  have nt: "\<not> truthy (js_read (board s) i)" using assms by (simp add: js_read_def)
  have w: "js_write (board s) i (Mark p) = (board s)[i := Mark p]"
    using assms by (simp add: js_write_def)
  note mm = makeMove_accepted[OF assms(1) nt, of p, unfolded Let_def w]
  let ?b' = "(board s)[i := Mark p]"
  let ?h' = "moveHistory s @ [\<lparr> move_index = i, move_player = p \<rparr>]"
  consider (win) "checkWinOnBoard ?b' p"
    | (draw) "\<not> checkWinOnBoard ?b' p" "everyCell ?b'"
    | (go) "\<not> checkWinOnBoard ?b' p" "\<not> everyCell ?b'"
    by blast
  then show ?thesis
  proof cases
    case win
    have "makeMove i p s = (JsUndefined,
        s\<lparr> board := ?b', moveHistory := ?h', scores := incrementScore p (scores s),
           gameOver := True \<rparr>)"
      using mm win by simp
    then show ?thesis using win by (cases p) (simp_all add: js_increment_def)
  next
    case draw
    have "makeMove i p s = (JsUndefined,
        s\<lparr> board := ?b', moveHistory := ?h',
           scores := (scores s)\<lparr> score_Draw := js_increment (score_Draw (scores s)) \<rparr>,
           gameOver := True \<rparr>)"
      using mm draw by simp
    then show ?thesis using draw by (simp add: everyCell_iff js_increment_def)
  next
    case go
    have "makeMove i p s = (JsUndefined,
        s\<lparr> board := ?b', moveHistory := ?h',
           currentPlayer := (if currentPlayer s = PlayerX then PlayerO else PlayerX) \<rparr>)"
      using mm go by simp
    then show ?thesis using go assms(1) by (simp add: everyCell_iff)
  qed
qed

theorem makeMove_settles_witness:
  "makeMove 5 PlayerO
     \<lparr> board = [Mark PlayerX, Mark PlayerX, Null, Mark PlayerO, Mark PlayerO, Null, Null, Null, Mark PlayerX],
       currentPlayer = PlayerO, mode = VsComputer, difficulty = Unbeatable, gameOver = False,
       scores = \<lparr> score_X = 2, score_O = 5, score_Draw = 1 \<rparr>,
       moveHistory = [\<lparr> move_index = 0, move_player = PlayerX \<rparr>, \<lparr> move_index = 3, move_player = PlayerO \<rparr>, \<lparr> move_index = 1, move_player = PlayerX \<rparr>, \<lparr> move_index = 4, move_player = PlayerO \<rparr>, \<lparr> move_index = 8, move_player = PlayerX \<rparr>] \<rparr>
   = (JsUndefined,
     \<lparr> board = [Mark PlayerX, Mark PlayerX, Null, Mark PlayerO, Mark PlayerO, Mark PlayerO, Null, Null, Mark PlayerX],
       currentPlayer = PlayerO, mode = VsComputer, difficulty = Unbeatable, gameOver = True,
       scores = \<lparr> score_X = 2, score_O = 6, score_Draw = 1 \<rparr>,
       moveHistory = [\<lparr> move_index = 0, move_player = PlayerX \<rparr>, \<lparr> move_index = 3, move_player = PlayerO \<rparr>, \<lparr> move_index = 1, move_player = PlayerX \<rparr>, \<lparr> move_index = 4, move_player = PlayerO \<rparr>, \<lparr> move_index = 8, move_player = PlayerX \<rparr>, \<lparr> move_index = 5, move_player = PlayerO \<rparr>] \<rparr>) \<and>
   (\<exists>s'. makeMove 8 PlayerX
     \<lparr> board = [Mark PlayerX, Mark PlayerO, Mark PlayerX, Mark PlayerO, Mark PlayerX, Mark PlayerO, Mark PlayerO, Mark PlayerX, Null],
       currentPlayer = PlayerX, mode = TwoPlayers, difficulty = Easy, gameOver = False,
       scores = \<lparr> score_X = 0, score_O = 0, score_Draw = 0 \<rparr>,
       moveHistory = [\<lparr> move_index = 0, move_player = PlayerX \<rparr>, \<lparr> move_index = 1, move_player = PlayerO \<rparr>, \<lparr> move_index = 2, move_player = PlayerX \<rparr>, \<lparr> move_index = 3, move_player = PlayerO \<rparr>, \<lparr> move_index = 4, move_player = PlayerX \<rparr>, \<lparr> move_index = 5, move_player = PlayerO \<rparr>, \<lparr> move_index = 7, move_player = PlayerX \<rparr>, \<lparr> move_index = 6, move_player = PlayerO \<rparr>] \<rparr> = (JsUndefined, s') \<and>
     gameOver s' \<and> Null \<notin> set (board s') \<and>
     scores s' = \<lparr> score_X = 1, score_O = 0, score_Draw = 0 \<rparr>)"
proof -
  have "makeMove 5 PlayerO
     \<lparr> board = [Mark PlayerX, Mark PlayerX, Null, Mark PlayerO, Mark PlayerO, Null, Null, Null, Mark PlayerX],
       currentPlayer = PlayerO, mode = VsComputer, difficulty = Unbeatable, gameOver = False,
       scores = \<lparr> score_X = 2, score_O = 5, score_Draw = 1 \<rparr>,
       moveHistory = [\<lparr> move_index = 0, move_player = PlayerX \<rparr>, \<lparr> move_index = 3, move_player = PlayerO \<rparr>, \<lparr> move_index = 1, move_player = PlayerX \<rparr>, \<lparr> move_index = 4, move_player = PlayerO \<rparr>, \<lparr> move_index = 8, move_player = PlayerX \<rparr>] \<rparr>
   = (JsUndefined,
     \<lparr> board = [Mark PlayerX, Mark PlayerX, Null, Mark PlayerO, Mark PlayerO, Mark PlayerO, Null, Null, Mark PlayerX],
       currentPlayer = PlayerO, mode = VsComputer, difficulty = Unbeatable, gameOver = True,
       scores = \<lparr> score_X = 2, score_O = 6, score_Draw = 1 \<rparr>,
       moveHistory = [\<lparr> move_index = 0, move_player = PlayerX \<rparr>, \<lparr> move_index = 3, move_player = PlayerO \<rparr>, \<lparr> move_index = 1, move_player = PlayerX \<rparr>, \<lparr> move_index = 4, move_player = PlayerO \<rparr>, \<lparr> move_index = 8, move_player = PlayerX \<rparr>, \<lparr> move_index = 5, move_player = PlayerO \<rparr>] \<rparr>)"
    using makeMove_settles[of
     "\<lparr> board = [Mark PlayerX, Mark PlayerX, Null, Mark PlayerO, Mark PlayerO, Null, Null, Null, Mark PlayerX],
       currentPlayer = PlayerO, mode = VsComputer, difficulty = Unbeatable, gameOver = False,
       scores = \<lparr> score_X = 2, score_O = 5, score_Draw = 1 \<rparr>,
       moveHistory = [\<lparr> move_index = 0, move_player = PlayerX \<rparr>, \<lparr> move_index = 3, move_player = PlayerO \<rparr>, \<lparr> move_index = 1, move_player = PlayerX \<rparr>, \<lparr> move_index = 4, move_player = PlayerO \<rparr>, \<lparr> move_index = 8, move_player = PlayerX \<rparr>] \<rparr>" 5 PlayerO]
    by (auto simp: checkWinOnBoard_def winPatterns_def js_read_def)
  moreover have "\<exists>s'. makeMove 8 PlayerX
     \<lparr> board = [Mark PlayerX, Mark PlayerO, Mark PlayerX, Mark PlayerO, Mark PlayerX, Mark PlayerO, Mark PlayerO, Mark PlayerX, Null],
       currentPlayer = PlayerX, mode = TwoPlayers, difficulty = Easy, gameOver = False,
       scores = \<lparr> score_X = 0, score_O = 0, score_Draw = 0 \<rparr>,
       moveHistory = [\<lparr> move_index = 0, move_player = PlayerX \<rparr>, \<lparr> move_index = 1, move_player = PlayerO \<rparr>, \<lparr> move_index = 2, move_player = PlayerX \<rparr>, \<lparr> move_index = 3, move_player = PlayerO \<rparr>, \<lparr> move_index = 4, move_player = PlayerX \<rparr>, \<lparr> move_index = 5, move_player = PlayerO \<rparr>, \<lparr> move_index = 7, move_player = PlayerX \<rparr>, \<lparr> move_index = 6, move_player = PlayerO \<rparr>] \<rparr> = (JsUndefined, s') \<and>
     gameOver s' \<and> Null \<notin> set (board s') \<and>
     scores s' = \<lparr> score_X = 1, score_O = 0, score_Draw = 0 \<rparr>"
    using makeMove_settles[of
     "\<lparr> board = [Mark PlayerX, Mark PlayerO, Mark PlayerX, Mark PlayerO, Mark PlayerX, Mark PlayerO, Mark PlayerO, Mark PlayerX, Null],
       currentPlayer = PlayerX, mode = TwoPlayers, difficulty = Easy, gameOver = False,
       scores = \<lparr> score_X = 0, score_O = 0, score_Draw = 0 \<rparr>,
       moveHistory = [\<lparr> move_index = 0, move_player = PlayerX \<rparr>, \<lparr> move_index = 1, move_player = PlayerO \<rparr>, \<lparr> move_index = 2, move_player = PlayerX \<rparr>, \<lparr> move_index = 3, move_player = PlayerO \<rparr>, \<lparr> move_index = 4, move_player = PlayerX \<rparr>, \<lparr> move_index = 5, move_player = PlayerO \<rparr>, \<lparr> move_index = 7, move_player = PlayerX \<rparr>, \<lparr> move_index = 6, move_player = PlayerO \<rparr>] \<rparr>" 8 PlayerX]
    by (auto simp: checkWinOnBoard_def winPatterns_def js_read_def)
  ultimately show ?thesis by blast
qed

text \<open>
  Against C2 as stated, for every state: where a tally has reached 2^53, X completes the top
  row and the tally of X stays what it was.
\<close>

theorem makeMove_settles_counterexample:
  "makeMove 2 PlayerX
     \<lparr> board = [Mark PlayerX, Mark PlayerX, Null, Mark PlayerO, Mark PlayerO, Null, Null, Null, Null],
       currentPlayer = PlayerX, mode = TwoPlayers, difficulty = Easy, gameOver = False,
       scores = \<lparr> score_X = 9007199254740992, score_O = 0, score_Draw = 0 \<rparr>,
       moveHistory = [\<lparr> move_index = 0, move_player = PlayerX \<rparr>, \<lparr> move_index = 3, move_player = PlayerO \<rparr>, \<lparr> move_index = 1, move_player = PlayerX \<rparr>, \<lparr> move_index = 4, move_player = PlayerO \<rparr>] \<rparr>
   = (JsUndefined,
     \<lparr> board = [Mark PlayerX, Mark PlayerX, Mark PlayerX, Mark PlayerO, Mark PlayerO, Null, Null, Null, Null],
       currentPlayer = PlayerX, mode = TwoPlayers, difficulty = Easy, gameOver = True,
       scores = \<lparr> score_X = 9007199254740992, score_O = 0, score_Draw = 0 \<rparr>,
       moveHistory = [\<lparr> move_index = 0, move_player = PlayerX \<rparr>, \<lparr> move_index = 3, move_player = PlayerO \<rparr>, \<lparr> move_index = 1, move_player = PlayerX \<rparr>, \<lparr> move_index = 4, move_player = PlayerO \<rparr>, \<lparr> move_index = 2, move_player = PlayerX \<rparr>] \<rparr>)"
  by (simp add: makeMove_def js_read_def js_write_def Let_def checkWin_def winPatterns_def
      endGame_def js_increment_def)

text \<open>
  Claim C4. A move on an occupied cell, or after the round is over, leaves the
  whole state as it was: board, player to move, history, game-over flag, scores, mode and
  difficulty. The call returns \<^verbatim>\<open>undefined\<close>, as every call of \<^verbatim>\<open>makeMove\<close> does: no value
  names the reason of the rejection, and none tells a rejected move from an accepted one.
  Only the state does: every other move changes it.
\<close>

theorem makeMove_rejects:
  "fst (makeMove i p s) = JsUndefined \<and>
   (truthy (js_read (board s) i) \<or> gameOver s \<longrightarrow> snd (makeMove i p s) = s) \<and>
   (\<not> truthy (js_read (board s) i) \<and> \<not> gameOver s \<longrightarrow> snd (makeMove i p s) \<noteq> s)"
proof (intro conjI impI)
  show "fst (makeMove i p s) = JsUndefined" by (cases "fst (makeMove i p s)") simp
next
  assume "truthy (js_read (board s) i) \<or> gameOver s"
  then show "snd (makeMove i p s) = s" using makeMove_rejected[of s i p] by simp
next
  assume a: "\<not> truthy (js_read (board s) i) \<and> \<not> gameOver s"
  have e: "snd (makeMove i p s) = snd (makeMove i p s)" by simp
  have "moveHistory (snd (makeMove i p s))
      = moveHistory s @ [\<lparr> move_index = i, move_player = p \<rparr>]"
    using makeMove_moved(4)[OF e] a by simp
  then show "snd (makeMove i p s) \<noteq> s" by auto
qed

theorem makeMove_rejects_witness:
  "truthy (js_read [Null, Null, Null, Null, Mark PlayerX, Null, Null, Null, Null] 4) \<and>
   makeMove 4 PlayerO
     \<lparr> board = [Null, Null, Null, Null, Mark PlayerX, Null, Null, Null, Null],
       currentPlayer = PlayerO, mode = TwoPlayers, difficulty = Easy, gameOver = False,
       scores = \<lparr> score_X = 0, score_O = 0, score_Draw = 0 \<rparr>,
       moveHistory = [\<lparr> move_index = 4, move_player = PlayerX \<rparr>] \<rparr>
   = (JsUndefined,
     \<lparr> board = [Null, Null, Null, Null, Mark PlayerX, Null, Null, Null, Null],
       currentPlayer = PlayerO, mode = TwoPlayers, difficulty = Easy, gameOver = False,
       scores = \<lparr> score_X = 0, score_O = 0, score_Draw = 0 \<rparr>,
       moveHistory = [\<lparr> move_index = 4, move_player = PlayerX \<rparr>] \<rparr>)"
  using makeMove_rejects[of 4 PlayerO
     "\<lparr> board = [Null, Null, Null, Null, Mark PlayerX, Null, Null, Null, Null],
       currentPlayer = PlayerO, mode = TwoPlayers, difficulty = Easy, gameOver = False,
       scores = \<lparr> score_X = 0, score_O = 0, score_Draw = 0 \<rparr>,
       moveHistory = [\<lparr> move_index = 4, move_player = PlayerX \<rparr>] \<rparr>"]
  by (simp add: js_read_def prod_eq_iff)

text \<open>
  Against C4 as stated, with an error returned that names the reason: a move on the
  occupied centre cell, a move after the round is over and a move that is accepted all
  return the same \<^verbatim>\<open>undefined\<close>.
\<close>

theorem makeMove_rejects_counterexample:
  "makeMove 4 PlayerO
     \<lparr> board = [Null, Null, Null, Null, Mark PlayerX, Null, Null, Null, Null],
       currentPlayer = PlayerO, mode = TwoPlayers, difficulty = Easy, gameOver = False,
       scores = \<lparr> score_X = 0, score_O = 0, score_Draw = 0 \<rparr>,
       moveHistory = [\<lparr> move_index = 4, move_player = PlayerX \<rparr>] \<rparr>
   = (JsUndefined,
     \<lparr> board = [Null, Null, Null, Null, Mark PlayerX, Null, Null, Null, Null],
       currentPlayer = PlayerO, mode = TwoPlayers, difficulty = Easy, gameOver = False,
       scores = \<lparr> score_X = 0, score_O = 0, score_Draw = 0 \<rparr>,
       moveHistory = [\<lparr> move_index = 4, move_player = PlayerX \<rparr>] \<rparr>) \<and>
   makeMove 2 PlayerX
     \<lparr> board = [Mark PlayerX, Mark PlayerX, Null, Mark PlayerO, Mark PlayerO, Mark PlayerO, Null, Null, Mark PlayerX],
       currentPlayer = PlayerO, mode = VsComputer, difficulty = Unbeatable, gameOver = True,
       scores = \<lparr> score_X = 2, score_O = 6, score_Draw = 1 \<rparr>,
       moveHistory = [\<lparr> move_index = 0, move_player = PlayerX \<rparr>, \<lparr> move_index = 3, move_player = PlayerO \<rparr>, \<lparr> move_index = 1, move_player = PlayerX \<rparr>, \<lparr> move_index = 4, move_player = PlayerO \<rparr>, \<lparr> move_index = 8, move_player = PlayerX \<rparr>, \<lparr> move_index = 5, move_player = PlayerO \<rparr>] \<rparr>
   = (JsUndefined,
     \<lparr> board = [Mark PlayerX, Mark PlayerX, Null, Mark PlayerO, Mark PlayerO, Mark PlayerO, Null, Null, Mark PlayerX],
       currentPlayer = PlayerO, mode = VsComputer, difficulty = Unbeatable, gameOver = True,
       scores = \<lparr> score_X = 2, score_O = 6, score_Draw = 1 \<rparr>,
       moveHistory = [\<lparr> move_index = 0, move_player = PlayerX \<rparr>, \<lparr> move_index = 3, move_player = PlayerO \<rparr>, \<lparr> move_index = 1, move_player = PlayerX \<rparr>, \<lparr> move_index = 4, move_player = PlayerO \<rparr>, \<lparr> move_index = 8, move_player = PlayerX \<rparr>, \<lparr> move_index = 5, move_player = PlayerO \<rparr>] \<rparr>) \<and>
   makeMove 0 PlayerO
     \<lparr> board = [Null, Null, Null, Null, Mark PlayerX, Null, Null, Null, Null],
       currentPlayer = PlayerO, mode = TwoPlayers, difficulty = Easy, gameOver = False,
       scores = \<lparr> score_X = 0, score_O = 0, score_Draw = 0 \<rparr>,
       moveHistory = [\<lparr> move_index = 4, move_player = PlayerX \<rparr>] \<rparr>
   = (JsUndefined,
     \<lparr> board = [Mark PlayerO, Null, Null, Null, Mark PlayerX, Null, Null, Null, Null],
       currentPlayer = PlayerX, mode = TwoPlayers, difficulty = Easy, gameOver = False,
       scores = \<lparr> score_X = 0, score_O = 0, score_Draw = 0 \<rparr>,
       moveHistory = [\<lparr> move_index = 4, move_player = PlayerX \<rparr>, \<lparr> move_index = 0, move_player = PlayerO \<rparr>] \<rparr>)"
  by (simp add: makeMove_def js_read_def js_write_def Let_def checkWin_def winPatterns_def
      everyCell_def)

lemma popMove_snoc:
  "moveHistory s = h @ [m] \<Longrightarrow>
   popMove s = s\<lparr> moveHistory := h, board := js_write (board s) (move_index m) Null \<rparr>"
  by (simp add: popMove_def)

text \<open>
  Claim C5. Undo is refused exactly when the history is empty or the round is over.
  Otherwise it pops the last move and clears its cell, and pops a second move as well when
  the mode is \<open>VsComputer\<close> and the history held at least two moves; the turn then
  goes to the opponent of the player of the move that is now last, or to X when the history
  has become empty. With the history \<open>[{0,X},{4,O}]\<close> against the computer, undo
  gives the empty board, the empty history and X to move.
\<close>

theorem undoMove_pops:
  "(undoMove s = Inl NothingToUndo \<longleftrightarrow> moveHistory s = [] \<or> gameOver s) \<and>
   (moveHistory s = [] \<or> gameOver s \<longrightarrow> stateAfter s (undoMove s) = s) \<and>
   (\<not> gameOver s \<longrightarrow> moveHistory s = h @ [m] \<longrightarrow> (mode s = VsComputer \<longrightarrow> h = []) \<longrightarrow>
      undoMove s = Inr (s\<lparr> moveHistory := h, board := js_write (board s) (move_index m) Null,
        currentPlayer := (if h = [] then PlayerX
                          else if move_player (last h) = PlayerX then PlayerO else PlayerX) \<rparr>)) \<and>
   (\<not> gameOver s \<longrightarrow> moveHistory s = h @ [m2, m] \<longrightarrow> mode s = VsComputer \<longrightarrow>
      undoMove s = Inr (s\<lparr> moveHistory := h,
        board := js_write (js_write (board s) (move_index m) Null) (move_index m2) Null,
        currentPlayer := (if h = [] then PlayerX
                          else if move_player (last h) = PlayerX then PlayerO else PlayerX) \<rparr>)) \<and>
   undoMove \<lparr> board = [Mark PlayerX, Null, Null, Null, Mark PlayerO, Null, Null, Null, Null],
              currentPlayer = PlayerX, mode = VsComputer, difficulty = d, gameOver = False,
              scores = sc,
              moveHistory = [\<lparr> move_index = 0, move_player = PlayerX \<rparr>,
                             \<lparr> move_index = 4, move_player = PlayerO \<rparr>] \<rparr>
     = Inr \<lparr> board = initialBoard, currentPlayer = PlayerX, mode = VsComputer, difficulty = d,
             gameOver = False, scores = sc, moveHistory = [] \<rparr>"
proof (intro conjI impI)
  show "(undoMove s = Inl NothingToUndo) = (moveHistory s = [] \<or> gameOver s)"
    by (simp add: undoMove_def Let_def)
next
  assume "moveHistory s = [] \<or> gameOver s"
  then show "stateAfter s (undoMove s) = s"
    by (simp add: undoMove_def stateAfter_def)
next
  assume a: "\<not> gameOver s" "moveHistory s = h @ [m]" "mode s = VsComputer \<longrightarrow> h = []"
  have n: "(if mode s = VsComputer \<and> length (moveHistory s) > 1 then 2 else 1 :: nat) = 1"
    using a by auto
  show "undoMove s = Inr (s\<lparr> moveHistory := h, board := js_write (board s) (move_index m) Null,
        currentPlayer := (if h = [] then PlayerX
                          else if move_player (last h) = PlayerX then PlayerO else PlayerX) \<rparr>)"
    unfolding undoMove_def Let_def n using a(1,2) by (simp add: popMove_snoc)
next
  assume a: "\<not> gameOver s" "moveHistory s = h @ [m2, m]" "mode s = VsComputer"
  have n: "(if mode s = VsComputer \<and> length (moveHistory s) > 1 then 2 else 1 :: nat) = Suc (Suc 0)"
    using a by auto
  have h2: "moveHistory s = (h @ [m2]) @ [m]" using a by simp
  have p1: "popMove s = s\<lparr> moveHistory := h @ [m2], board := js_write (board s) (move_index m) Null \<rparr>"
    by (rule popMove_snoc[OF h2])
  have p2: "popMove (popMove s) = s\<lparr> moveHistory := h,
      board := js_write (js_write (board s) (move_index m) Null) (move_index m2) Null \<rparr>"
    unfolding p1 by (subst popMove_snoc[of _ h m2]) simp_all
  show "undoMove s = Inr (s\<lparr> moveHistory := h,
        board := js_write (js_write (board s) (move_index m) Null) (move_index m2) Null,
        currentPlayer := (if h = [] then PlayerX
                          else if move_player (last h) = PlayerX then PlayerO else PlayerX) \<rparr>)"
    unfolding undoMove_def Let_def n using a(1,2) by (simp add: p2)
next
  show "undoMove \<lparr> board = [Mark PlayerX, Null, Null, Null, Mark PlayerO, Null, Null, Null, Null],
              currentPlayer = PlayerX, mode = VsComputer, difficulty = d, gameOver = False,
              scores = sc,
              moveHistory = [\<lparr> move_index = 0, move_player = PlayerX \<rparr>,
                             \<lparr> move_index = 4, move_player = PlayerO \<rparr>] \<rparr>
     = Inr \<lparr> board = initialBoard, currentPlayer = PlayerX, mode = VsComputer, difficulty = d,
             gameOver = False, scores = sc, moveHistory = [] \<rparr>"
    by (simp add: undoMove_def Let_def popMove_def js_write_def initialBoard_def numeral_eq_Suc)
qed

theorem undoMove_pops_witness:
  "undoMove
     \<lparr> board = [Null, Null, Null, Null, Mark PlayerX, Null, Null, Null, Null],
       currentPlayer = PlayerO, mode = TwoPlayers, difficulty = Easy, gameOver = False,
       scores = \<lparr> score_X = 0, score_O = 0, score_Draw = 0 \<rparr>,
       moveHistory = [\<lparr> move_index = 4, move_player = PlayerX \<rparr>] \<rparr> = Inr
     \<lparr> board = [Null, Null, Null, Null, Null, Null, Null, Null, Null],
       currentPlayer = PlayerX, mode = TwoPlayers, difficulty = Easy, gameOver = False,
       scores = \<lparr> score_X = 0, score_O = 0, score_Draw = 0 \<rparr>,
       moveHistory = [] \<rparr>"
  using undoMove_pops[of
     "\<lparr> board = [Null, Null, Null, Null, Mark PlayerX, Null, Null, Null, Null],
       currentPlayer = PlayerO, mode = TwoPlayers, difficulty = Easy, gameOver = False,
       scores = \<lparr> score_X = 0, score_O = 0, score_Draw = 0 \<rparr>,
       moveHistory = [\<lparr> move_index = 4, move_player = PlayerX \<rparr>] \<rparr>" "[]" "\<lparr> move_index = 4, move_player = PlayerX \<rparr>"]
  by (simp add: js_write_def)

text \<open>
  Claim C10. An undo that takes place leaves the three tallies and the game-over flag as
  they were.
\<close>

theorem undoMove_keeps_scores:
  assumes "undoMove s = Inr s'"
  shows "scores s' = scores s \<and> gameOver s' = gameOver s"
proof -
  from undoMove_Inr(3)[OF assms] obtain n cp where
    "s' = ((popMove ^^ n) s)\<lparr> currentPlayer := cp \<rparr>" by blast
  then show ?thesis by (simp add: funpow_popMove_fields)
qed

theorem undoMove_keeps_scores_witness:
  "undoMove
     \<lparr> board = [Mark PlayerO, Null, Null, Null, Mark PlayerX, Null, Null, Null, Null],
       currentPlayer = PlayerX, mode = TwoPlayers, difficulty = Easy, gameOver = False,
       scores = \<lparr> score_X = 0, score_O = 0, score_Draw = 0 \<rparr>,
       moveHistory = [\<lparr> move_index = 4, move_player = PlayerX \<rparr>, \<lparr> move_index = 0, move_player = PlayerO \<rparr>] \<rparr> = Inr
     \<lparr> board = [Null, Null, Null, Null, Mark PlayerX, Null, Null, Null, Null],
       currentPlayer = PlayerO, mode = TwoPlayers, difficulty = Easy, gameOver = False,
       scores = \<lparr> score_X = 0, score_O = 0, score_Draw = 0 \<rparr>,
       moveHistory = [\<lparr> move_index = 4, move_player = PlayerX \<rparr>] \<rparr> \<and>
   scores
     \<lparr> board = [Null, Null, Null, Null, Mark PlayerX, Null, Null, Null, Null],
       currentPlayer = PlayerO, mode = TwoPlayers, difficulty = Easy, gameOver = False,
       scores = \<lparr> score_X = 0, score_O = 0, score_Draw = 0 \<rparr>,
       moveHistory = [\<lparr> move_index = 4, move_player = PlayerX \<rparr>] \<rparr> = \<lparr> score_X = 0, score_O = 0, score_Draw = 0 \<rparr>"
proof -
  have u: "undoMove
     \<lparr> board = [Mark PlayerO, Null, Null, Null, Mark PlayerX, Null, Null, Null, Null],
       currentPlayer = PlayerX, mode = TwoPlayers, difficulty = Easy, gameOver = False,
       scores = \<lparr> score_X = 0, score_O = 0, score_Draw = 0 \<rparr>,
       moveHistory = [\<lparr> move_index = 4, move_player = PlayerX \<rparr>, \<lparr> move_index = 0, move_player = PlayerO \<rparr>] \<rparr> = Inr
     \<lparr> board = [Null, Null, Null, Null, Mark PlayerX, Null, Null, Null, Null],
       currentPlayer = PlayerO, mode = TwoPlayers, difficulty = Easy, gameOver = False,
       scores = \<lparr> score_X = 0, score_O = 0, score_Draw = 0 \<rparr>,
       moveHistory = [\<lparr> move_index = 4, move_player = PlayerX \<rparr>] \<rparr>"
    by (simp add: undoMove_def popMove_def js_write_def)
  from undoMove_keeps_scores[OF u] u show ?thesis by simp
qed

section \<open>The search\<close>

lemma emptyCellsOf_Nil_iff: "emptyCellsOf b = [] \<longleftrightarrow> Null \<notin> set b"
proof -
  have "emptyCellsOf b = [] \<longleftrightarrow> set (emptyCellsOf b) = {}" by simp
  also have "\<dots> \<longleftrightarrow> Null \<notin> set b"
    unfolding set_emptyCellsOf by (auto simp: in_set_conv_nth)
  finally show ?thesis .
qed

lemma minimax_terminal:
  assumes "emptyCellsOf b = []"
  shows "\<exists>sc. minimax b p alpha beta = (Inr (Obj \<lparr> index = None, score = sc \<rparr>), b)"
  using assms by (subst minimax.simps) (simp add: Let_def)

text \<open>
  Claim C9. On a board without an empty cell neither \<^verbatim>\<open>getEasyMove\<close> nor
  \<^verbatim>\<open>getBestMove\<close> returns a cell index: both return \<^verbatim>\<open>undefined\<close>. That is a normal
  return: no error is thrown or returned, and \<^verbatim>\<open>getBestMove\<close> leaves the state as it was.
\<close>

theorem no_move_on_full_board:
  assumes "Null \<notin> set (board s)"
  shows "getEasyMove k s = None \<and> getBestMove s = (Inr None, s)"
proof -
  have e: "emptyCellsOf (board s) = []" using assms by (simp add: emptyCellsOf_Nil_iff)
  from minimax_terminal[OF e] obtain sc where
    "minimax (board s) PlayerO NegInfinity Infinity = (Inr (Obj \<lparr> index = None, score = sc \<rparr>), board s)"
    by blast
  then have "getBestMove s = (Inr None, s)" by (simp add: getBestMove_def Let_def)
  then show ?thesis using e by (simp add: getEasyMove_def)
qed

theorem no_move_on_full_board_witness:
  "getEasyMove 0
     \<lparr> board = [Mark PlayerX, Mark PlayerO, Mark PlayerX, Mark PlayerX, Mark PlayerO, Mark PlayerO, Mark PlayerO, Mark PlayerX, Mark PlayerX],
       currentPlayer = PlayerX, mode = VsComputer, difficulty = Unbeatable, gameOver = True,
       scores = \<lparr> score_X = 0, score_O = 0, score_Draw = 1 \<rparr>,
       moveHistory = [\<lparr> move_index = 0, move_player = PlayerX \<rparr>, \<lparr> move_index = 1, move_player = PlayerO \<rparr>, \<lparr> move_index = 2, move_player = PlayerX \<rparr>, \<lparr> move_index = 4, move_player = PlayerO \<rparr>, \<lparr> move_index = 3, move_player = PlayerX \<rparr>, \<lparr> move_index = 5, move_player = PlayerO \<rparr>, \<lparr> move_index = 7, move_player = PlayerX \<rparr>, \<lparr> move_index = 6, move_player = PlayerO \<rparr>, \<lparr> move_index = 8, move_player = PlayerX \<rparr>] \<rparr> = None \<and>
   getBestMove
     \<lparr> board = [Mark PlayerX, Mark PlayerO, Mark PlayerX, Mark PlayerX, Mark PlayerO, Mark PlayerO, Mark PlayerO, Mark PlayerX, Mark PlayerX],
       currentPlayer = PlayerX, mode = VsComputer, difficulty = Unbeatable, gameOver = True,
       scores = \<lparr> score_X = 0, score_O = 0, score_Draw = 1 \<rparr>,
       moveHistory = [\<lparr> move_index = 0, move_player = PlayerX \<rparr>, \<lparr> move_index = 1, move_player = PlayerO \<rparr>, \<lparr> move_index = 2, move_player = PlayerX \<rparr>, \<lparr> move_index = 4, move_player = PlayerO \<rparr>, \<lparr> move_index = 3, move_player = PlayerX \<rparr>, \<lparr> move_index = 5, move_player = PlayerO \<rparr>, \<lparr> move_index = 7, move_player = PlayerX \<rparr>, \<lparr> move_index = 6, move_player = PlayerO \<rparr>, \<lparr> move_index = 8, move_player = PlayerX \<rparr>] \<rparr> = (Inr None,
     \<lparr> board = [Mark PlayerX, Mark PlayerO, Mark PlayerX, Mark PlayerX, Mark PlayerO, Mark PlayerO, Mark PlayerO, Mark PlayerX, Mark PlayerX],
       currentPlayer = PlayerX, mode = VsComputer, difficulty = Unbeatable, gameOver = True,
       scores = \<lparr> score_X = 0, score_O = 0, score_Draw = 1 \<rparr>,
       moveHistory = [\<lparr> move_index = 0, move_player = PlayerX \<rparr>, \<lparr> move_index = 1, move_player = PlayerO \<rparr>, \<lparr> move_index = 2, move_player = PlayerX \<rparr>, \<lparr> move_index = 4, move_player = PlayerO \<rparr>, \<lparr> move_index = 3, move_player = PlayerX \<rparr>, \<lparr> move_index = 5, move_player = PlayerO \<rparr>, \<lparr> move_index = 7, move_player = PlayerX \<rparr>, \<lparr> move_index = 6, move_player = PlayerO \<rparr>, \<lparr> move_index = 8, move_player = PlayerX \<rparr>] \<rparr>)"
  using no_move_on_full_board[of
     "\<lparr> board = [Mark PlayerX, Mark PlayerO, Mark PlayerX, Mark PlayerX, Mark PlayerO, Mark PlayerO, Mark PlayerO, Mark PlayerX, Mark PlayerX],
       currentPlayer = PlayerX, mode = VsComputer, difficulty = Unbeatable, gameOver = True,
       scores = \<lparr> score_X = 0, score_O = 0, score_Draw = 1 \<rparr>,
       moveHistory = [\<lparr> move_index = 0, move_player = PlayerX \<rparr>, \<lparr> move_index = 1, move_player = PlayerO \<rparr>, \<lparr> move_index = 2, move_player = PlayerX \<rparr>, \<lparr> move_index = 4, move_player = PlayerO \<rparr>, \<lparr> move_index = 3, move_player = PlayerX \<rparr>, \<lparr> move_index = 5, move_player = PlayerO \<rparr>, \<lparr> move_index = 7, move_player = PlayerX \<rparr>, \<lparr> move_index = 6, move_player = PlayerO \<rparr>, \<lparr> move_index = 8, move_player = PlayerX \<rparr>] \<rparr>" 0]
  by simp

text \<open>
  Against C9 as stated, with both calls failing with an error: on a full board
  \<^verbatim>\<open>getBestMove\<close> returns on its normal path, with \<^verbatim>\<open>undefined\<close> for the index, and
  \<^verbatim>\<open>getEasyMove\<close> returns \<^verbatim>\<open>undefined\<close> as well.
\<close>

theorem no_move_on_full_board_counterexample:
  "fst (getBestMove
     \<lparr> board = [Mark PlayerX, Mark PlayerO, Mark PlayerX, Mark PlayerX, Mark PlayerO, Mark PlayerO, Mark PlayerO, Mark PlayerX, Mark PlayerX],
       currentPlayer = PlayerX, mode = VsComputer, difficulty = Unbeatable, gameOver = True,
       scores = \<lparr> score_X = 0, score_O = 0, score_Draw = 1 \<rparr>,
       moveHistory = [\<lparr> move_index = 0, move_player = PlayerX \<rparr>, \<lparr> move_index = 1, move_player = PlayerO \<rparr>, \<lparr> move_index = 2, move_player = PlayerX \<rparr>, \<lparr> move_index = 4, move_player = PlayerO \<rparr>, \<lparr> move_index = 3, move_player = PlayerX \<rparr>, \<lparr> move_index = 5, move_player = PlayerO \<rparr>, \<lparr> move_index = 7, move_player = PlayerX \<rparr>, \<lparr> move_index = 6, move_player = PlayerO \<rparr>, \<lparr> move_index = 8, move_player = PlayerX \<rparr>] \<rparr>) = Inr None \<and>
   fst (getBestMove
     \<lparr> board = [Mark PlayerX, Mark PlayerO, Mark PlayerX, Mark PlayerX, Mark PlayerO, Mark PlayerO, Mark PlayerO, Mark PlayerX, Mark PlayerX],
       currentPlayer = PlayerX, mode = VsComputer, difficulty = Unbeatable, gameOver = True,
       scores = \<lparr> score_X = 0, score_O = 0, score_Draw = 1 \<rparr>,
       moveHistory = [\<lparr> move_index = 0, move_player = PlayerX \<rparr>, \<lparr> move_index = 1, move_player = PlayerO \<rparr>, \<lparr> move_index = 2, move_player = PlayerX \<rparr>, \<lparr> move_index = 4, move_player = PlayerO \<rparr>, \<lparr> move_index = 3, move_player = PlayerX \<rparr>, \<lparr> move_index = 5, move_player = PlayerO \<rparr>, \<lparr> move_index = 7, move_player = PlayerX \<rparr>, \<lparr> move_index = 6, move_player = PlayerO \<rparr>, \<lparr> move_index = 8, move_player = PlayerX \<rparr>] \<rparr>) \<noteq> Inl TypeError \<and>
   getEasyMove 0
     \<lparr> board = [Mark PlayerX, Mark PlayerO, Mark PlayerX, Mark PlayerX, Mark PlayerO, Mark PlayerO, Mark PlayerO, Mark PlayerX, Mark PlayerX],
       currentPlayer = PlayerX, mode = VsComputer, difficulty = Unbeatable, gameOver = True,
       scores = \<lparr> score_X = 0, score_O = 0, score_Draw = 1 \<rparr>,
       moveHistory = [\<lparr> move_index = 0, move_player = PlayerX \<rparr>, \<lparr> move_index = 1, move_player = PlayerO \<rparr>, \<lparr> move_index = 2, move_player = PlayerX \<rparr>, \<lparr> move_index = 4, move_player = PlayerO \<rparr>, \<lparr> move_index = 3, move_player = PlayerX \<rparr>, \<lparr> move_index = 5, move_player = PlayerO \<rparr>, \<lparr> move_index = 7, move_player = PlayerX \<rparr>, \<lparr> move_index = 6, move_player = PlayerO \<rparr>, \<lparr> move_index = 8, move_player = PlayerX \<rparr>] \<rparr> = None"
proof -
  have e: "emptyCellsOf [Mark PlayerX, Mark PlayerO, Mark PlayerX, Mark PlayerX, Mark PlayerO,
      Mark PlayerO, Mark PlayerO, Mark PlayerX, Mark PlayerX] = []"
    by (simp add: emptyCellsOf_Nil_iff)
  from minimax_terminal[OF e, of PlayerO NegInfinity Infinity] obtain sc where
    "minimax [Mark PlayerX, Mark PlayerO, Mark PlayerX, Mark PlayerX, Mark PlayerO,
      Mark PlayerO, Mark PlayerO, Mark PlayerX, Mark PlayerX] PlayerO NegInfinity Infinity
     = (Inr (Obj \<lparr> index = None, score = sc \<rparr>),
        [Mark PlayerX, Mark PlayerO, Mark PlayerX, Mark PlayerX, Mark PlayerO,
      Mark PlayerO, Mark PlayerO, Mark PlayerX, Mark PlayerX])"
    by blast
  then show ?thesis using e by (simp add: getBestMove_def getEasyMove_def Let_def)
qed

text \<open>
  Claim C6. For every board, player and window the search returns with the board as it was
  before the call, and so does \<^verbatim>\<open>getBestMove\<close> with the state: every mark written during
  the traversal has been taken back, also where pruning leaves the loop early.
\<close>

theorem search_restores_board:
  "snd (minimax b p alpha beta) = b \<and> snd (getBestMove s) = s"
proof -
  obtain res where "snd (minimax (board s) PlayerO NegInfinity Infinity) = board s"
    "fst (minimax (board s) PlayerO NegInfinity Infinity) = Inr (Obj res)"
    using minimax_restores by blast
  then have "snd (getBestMove s) = s" by (simp add: getBestMove_def Let_def)
  then show ?thesis using minimax_restores by simp
qed

lemma minimax_loop_step:
  assumes "minimax (js_write b c (Mark p)) (if p = PlayerO then PlayerX else PlayerO) alpha beta
             = (Inr (Obj res), b1)"
  shows "minimax_loop (c # cs) b p alpha beta moves =
    (let alpha' = (if p = PlayerO then Math_max alpha (Num (score res)) else alpha);
         beta' = (if p = PlayerO then beta else Math_min beta (Num (score res)));
         moves' = moves @ [\<lparr>index = Some c, score = score res\<rparr>]
     in if js_ge alpha' beta' then (Inr moves', js_write b1 c Null)
        else minimax_loop cs (js_write b1 c Null) p alpha' beta' moves')"
  by (subst minimax_loop.simps) (simp only: assms Let_def fst_conv snd_conv sum.case result.case)





section \<open>Invariants of a session\<close>

lemma checkWinOnBoard_iff:
  "checkWinOnBoard b p \<longleftrightarrow> (\<exists>c\<in>set winPatterns. \<forall>i\<in>set c. js_read b i = Mark p)"
  by (simp add: checkWinOnBoard_def list_ex_iff list_all_iff)

lemma win_write_other:
  "checkWinOnBoard (js_write b i (Mark p)) q \<Longrightarrow> q \<noteq> p \<Longrightarrow> checkWinOnBoard b q"
  unfolding checkWinOnBoard_iff js_read_write
  by (metis cell.inject)

lemma win_write_Null: "checkWinOnBoard (js_write b i Null) q \<Longrightarrow> checkWinOnBoard b q"
  unfolding checkWinOnBoard_iff js_read_write
  by (metis cell.distinct(1))

lemma winPatterns_nonempty: "c \<in> set winPatterns \<Longrightarrow> c \<noteq> []"
  by (auto simp: winPatterns_def)

lemma win_replicate_Null: "\<not> checkWinOnBoard (replicate n Null) q"
proof
  assume "checkWinOnBoard (replicate n Null) q"
  then obtain c where c: "c \<in> set winPatterns" "\<forall>i\<in>set c. js_read (replicate n Null) i = Mark q"
    by (auto simp: checkWinOnBoard_iff)
  from winPatterns_nonempty[OF c(1)] obtain i where "i \<in> set c" by (cases c) auto
  with c(2) show False by (auto simp: js_read_def split: if_splits)
qed

lemma oneWinner_newGame: "oneWinner (newGame s)"
  by (simp add: oneWinner_def newGame_def win_replicate_Null)

lemma oneWinner_makeMove:
  assumes "oneWinner s" "snd (makeMove i p s) = s'"
    "\<not> gameOver s" "\<not> truthy (js_read (board s) i)"
  shows "oneWinner s'"
proof -
  note m = makeMove_moved[OF assms(2,3,4)]
  have nowin: "\<not> checkWinOnBoard (board s) q" for q
    using assms(1) m(1) by (cases q) (simp_all add: oneWinner_def)
  have other: "\<not> checkWinOnBoard (board s') q" if "q \<noteq> p" for q
    using win_write_other[of "board s" i p q] nowin that m(3) by auto
  show ?thesis
  proof (cases p)
    case PlayerX
    then have "\<not> checkWinOnBoard (board s') PlayerO" using other by simp
    then show ?thesis using m(7) PlayerX by (auto simp: oneWinner_def)
  next
    case PlayerO
    then have "\<not> checkWinOnBoard (board s') PlayerX" using other by simp
    then show ?thesis using m(7) PlayerO by (auto simp: oneWinner_def)
  qed
qed

lemma popMove_nowin:
  "\<not> checkWinOnBoard (board s) q \<Longrightarrow> \<not> checkWinOnBoard (board (popMove s)) q"
  using win_write_Null by (auto simp: popMove_def split: list.splits)

lemma funpow_popMove_nowin:
  "\<not> checkWinOnBoard (board s) q \<Longrightarrow> \<not> checkWinOnBoard (board ((popMove ^^ n) s)) q"
  by (induction n) (simp_all add: popMove_nowin)

lemma oneWinner_undoMove:
  assumes "oneWinner s" "undoMove s = Inr s'"
  shows "oneWinner s'"
proof -
  from undoMove_Inr[OF assms(2)] obtain n cp where
    g: "\<not> gameOver s" and s': "s' = ((popMove ^^ n) s)\<lparr> currentPlayer := cp \<rparr>" by blast
  have "\<not> checkWinOnBoard (board s) q" for q
    using assms(1) g by (cases q) (simp_all add: oneWinner_def)
  then have "\<not> checkWinOnBoard (board s') q" for q
    using funpow_popMove_nowin[of s q n] s' by simp
  then show ?thesis by (simp add: oneWinner_def)
qed

lemma reachable_oneWinner: "reachable s \<Longrightarrow> oneWinner s"
proof (induction rule: reachable.induct)
  case reach_init
  then show ?case
    by (simp add: oneWinner_def initialState_def initialBoard_def win_replicate_Null)
next
  case (reach_move s i p)
  show ?case
  proof (cases "truthy (js_read (board s) i) \<or> gameOver s")
    case True
    then show ?thesis using reach_move.IH makeMove_rejected[of s i p] by simp
  next
    case False
    then show ?thesis using oneWinner_makeMove[OF reach_move.IH refl] by simp
  qed
next
  case (reach_undo s s')
  then show ?case using oneWinner_undoMove by blast
qed (rule oneWinner_newGame)+

text \<open>
  Claim C8. In no state that a session can reach do both X and O have a completed win
  pattern: the win check holds for at most one player.
\<close>

theorem at_most_one_winner:
  "reachable s \<Longrightarrow> \<not> (checkWinOnBoard (board s) PlayerX \<and> checkWinOnBoard (board s) PlayerO)"
  using reachable_oneWinner[of s] by (simp add: oneWinner_def)

theorem at_most_one_winner_witness:
  "reachable
     \<lparr> board = [Null, Null, Null, Null, Mark PlayerX, Null, Null, Null, Null],
       currentPlayer = PlayerO, mode = TwoPlayers, difficulty = Easy, gameOver = False,
       scores = \<lparr> score_X = 0, score_O = 0, score_Draw = 0 \<rparr>,
       moveHistory = [\<lparr> move_index = 4, move_player = PlayerX \<rparr>] \<rparr> \<and>
   \<not> (checkWinOnBoard [Null, Null, Null, Null, Mark PlayerX, Null, Null, Null, Null] PlayerX \<and>
      checkWinOnBoard [Null, Null, Null, Null, Mark PlayerX, Null, Null, Null, Null] PlayerO)"
  using at_most_one_winner[OF reachable_first] reachable_first by simp

lemma replay_snoc:
  "replay (h @ [m]) b = js_write (replay h b) (move_index m) (Mark (move_player m))"
  by (simp add: replay_def)

lemma length_js_write: "i < length b \<Longrightarrow> length (js_write b i v) = length b"
  by (simp add: js_write_def)

lemma length_replay:
  "\<forall>m\<in>set h. move_index m < length b \<Longrightarrow> length (replay h b) = length b"
  by (induction h rule: rev_induct) (simp_all add: replay_def length_js_write)

lemma read_replay_other:
  "i \<notin> move_index ` set h \<Longrightarrow> js_read (replay h b) i = js_read b i"
  by (induction h rule: rev_induct) (auto simp: replay_snoc js_read_write, simp add: replay_def)

lemma read_replay_marked:
  "i \<in> move_index ` set h \<Longrightarrow> truthy (js_read (replay h b) i)"
proof (induction h rule: rev_induct)
  case Nil
  then show ?case by simp
next
  case (snoc m h)
  then show ?case by (cases "i = move_index m") (auto simp: replay_snoc js_read_write)
qed

lemma occupiedCount_update:
  "i < length b \<Longrightarrow> b ! i = Null \<Longrightarrow> occupiedCount (b[i := Mark p]) = Suc (occupiedCount b)"
proof (induction b arbitrary: i)
  case Nil
  then show ?case by simp
next
  case (Cons c b)
  then show ?case by (cases i) (auto simp: occupiedCount_def)
qed

lemma historyMatches_newGame: "length (board s) = 9 \<Longrightarrow> historyMatches (newGame s)"
  by (simp add: historyMatches_def newGame_def replay_def initialBoard_def)

lemma historyMatches_makeMove:
  assumes "historyMatches s" "i < 9" "snd (makeMove i p s) = s'"
    "\<not> gameOver s" "\<not> truthy (js_read (board s) i)"
  shows "historyMatches s'"
proof -
  note m = makeMove_moved[OF assms(3,4,5)]
  have "i \<notin> move_index ` set (moveHistory s)"
    using read_replay_marked[of i "moveHistory s" initialBoard] m(2) assms(1)
    by (auto simp: historyMatches_def)
  moreover have "length (board s) = 9" using assms(1) by (simp add: historyMatches_def)
  then have "length (board s') = 9"
    using m(3) assms(2) length_js_write[of i "board s"] by simp
  ultimately show ?thesis
    using assms(1,2) m(3,4) by (simp add: historyMatches_def replay_snoc)
qed

lemma historyMatches_popMove:
  assumes "historyMatches s"
  shows "historyMatches (popMove s)"
proof (cases "moveHistory s" rule: rev_cases)
  case Nil
  then show ?thesis using assms by (simp add: popMove_def)
next
  case (snoc h m)
  let ?B = "replay h initialBoard"
  have idx: "move_index m < 9" "move_index m \<notin> move_index ` set h"
    "distinct (map move_index h)" "\<forall>m\<in>set h. move_index m < 9"
    using assms snoc by (auto simp: historyMatches_def)
  have len: "length ?B = 9"
    using length_replay[of h initialBoard] idx(4) by (simp add: initialBoard_def)
  have "js_read ?B (move_index m) = Null"
    using read_replay_other[OF idx(2), of initialBoard] idx(1)
    by (simp add: js_read_def initialBoard_def)
  then have "?B ! move_index m = Null" using len idx(1) by (simp add: js_read_def)
  then have "js_write (js_write ?B (move_index m) (Mark (move_player m))) (move_index m) Null = ?B"
    using js_write_restore len idx(1) by simp
  moreover have "board s = js_write ?B (move_index m) (Mark (move_player m))"
    using assms snoc by (simp add: historyMatches_def replay_snoc)
  ultimately have "board (popMove s) = ?B" "moveHistory (popMove s) = h"
    using snoc by (simp_all add: popMove_def)
  then show ?thesis using idx len by (simp add: historyMatches_def)
qed

lemma historyMatches_funpow: "historyMatches s \<Longrightarrow> historyMatches ((popMove ^^ n) s)"
  by (induction n) (simp_all add: historyMatches_popMove)

lemma historyMatches_undoMove:
  assumes "historyMatches s" "undoMove s = Inr s'"
  shows "historyMatches s'"
proof -
  from undoMove_Inr(3)[OF assms(2)] obtain n cp where
    "s' = ((popMove ^^ n) s)\<lparr> currentPlayer := cp \<rparr>" by blast
  then show ?thesis using historyMatches_funpow[OF assms(1), of n]
    by (simp add: historyMatches_def)
qed

lemma reachable_historyMatches: "reachable s \<Longrightarrow> historyMatches s"
proof (induction rule: reachable.induct)
  case reach_init
  then show ?case by (simp add: historyMatches_def initialState_def replay_def initialBoard_def)
next
  case (reach_move s i p)
  show ?case
  proof (cases "truthy (js_read (board s) i) \<or> gameOver s")
    case True
    then show ?thesis using reach_move.IH makeMove_rejected[of s i p] by simp
  next
    case False
    then show ?thesis
      using historyMatches_makeMove[OF reach_move.IH reach_move.hyps(2) refl] by simp
  qed
next
  case (reach_undo s s')
  then show ?case using historyMatches_undoMove by blast
next
  case (reach_playAgain s)
  then show ?case by (intro historyMatches_newGame) (simp add: historyMatches_def)
next
  case (reach_newGame s)
  then show ?case by (intro historyMatches_newGame) (simp add: historyMatches_def)
next
  case (reach_mode s m)
  then show ?case by (intro historyMatches_newGame) (simp add: historyMatches_def)
next
  case (reach_difficulty s d)
  then show ?case by (intro historyMatches_newGame) (simp add: historyMatches_def)
qed

lemma occupiedCount_replay:
  assumes "distinct (map move_index h)" "\<forall>m\<in>set h. move_index m < length b"
    "\<forall>m\<in>set h. b ! move_index m = Null"
  shows "occupiedCount (replay h b) = occupiedCount b + length h"
  using assms
proof (induction h rule: rev_induct)
  case Nil
  then show ?case by (simp add: replay_def)
next
  case (snoc m h)
  let ?B = "replay h b"
  have len: "length ?B = length b" using length_replay[of h b] snoc.prems by simp
  have "move_index m \<notin> move_index ` set h" using snoc.prems by auto
  then have "js_read ?B (move_index m) = js_read b (move_index m)" by (rule read_replay_other)
  then have "?B ! move_index m = Null" using snoc.prems len by (simp add: js_read_def)
  then have "occupiedCount (?B[move_index m := Mark (move_player m)]) = Suc (occupiedCount ?B)"
    using occupiedCount_update len snoc.prems by simp
  moreover have "occupiedCount ?B = occupiedCount b + length h" using snoc by simp
  ultimately show ?case using len snoc.prems by (simp add: replay_snoc js_write_def)
qed

text \<open>
  Claim C3. In every state reachable from the initial state by moves, undos and resets,
  replaying the move history from the empty board gives the current board, and the history is
  as long as the number of cells that are not empty.
\<close>

theorem history_replays_board:
  assumes "reachable s"
  shows "replay (moveHistory s) initialBoard = board s \<and>
         length (moveHistory s) = occupiedCount (board s)"
proof -
  from reachable_historyMatches[OF assms] have h: "historyMatches s" .
  then have "occupiedCount (replay (moveHistory s) initialBoard)
      = occupiedCount initialBoard + length (moveHistory s)"
    by (intro occupiedCount_replay) (auto simp: historyMatches_def initialBoard_def)
  then show ?thesis using h by (simp add: historyMatches_def occupiedCount_def initialBoard_def)
qed

theorem history_replays_board_witness:
  "reachable
     \<lparr> board = [Null, Null, Null, Null, Mark PlayerX, Null, Null, Null, Null],
       currentPlayer = PlayerO, mode = TwoPlayers, difficulty = Easy, gameOver = False,
       scores = \<lparr> score_X = 0, score_O = 0, score_Draw = 0 \<rparr>,
       moveHistory = [\<lparr> move_index = 4, move_player = PlayerX \<rparr>] \<rparr> \<and>
   replay [\<lparr> move_index = 4, move_player = PlayerX \<rparr>] initialBoard
     = [Null, Null, Null, Null, Mark PlayerX, Null, Null, Null, Null] \<and>
   occupiedCount [Null, Null, Null, Null, Mark PlayerX, Null, Null, Null, Null] = 1"
  using history_replays_board[OF reachable_first] reachable_first by simp

section \<open>The unbeatable computer never loses\<close>

lemma js_ge_iff: "js_ge a b \<longleftrightarrow> b \<le> a"
  by (simp add: js_ge_def less_eq_js_number_def eq_commute)

lemma Math_max_eq: "Math_max a b = max a b"
  by (auto simp: Math_max_def max_def less_js_number_def[symmetric])

lemma Math_min_eq: "Math_min a b = min a b"
  by (auto simp: Math_min_def min_def less_js_number_def[symmetric])

lemma Num_less_iff [simp]: "Num a < Num b \<longleftrightarrow> a < b"
  by (simp add: less_js_number_def)

lemma Num_le_iff [simp]: "Num a \<le> Num b \<longleftrightarrow> a \<le> b"
  by (auto simp: less_eq_js_number_def)

lemma Infinity_bounds [simp]: "NegInfinity < Num a" "Num a < Infinity" "NegInfinity < Infinity"
  by (simp_all add: less_js_number_def)

lemma bounded_max_step:
  assumes "bounded s1 v1 alpha beta" "bounded S' V' (max alpha (Num s1)) beta"
  shows "bounded (max s1 S') (max v1 V') alpha beta"
  unfolding bounded_def
proof (intro conjI impI)
  assume a: "alpha < Num (max s1 S')"
  show "max s1 S' \<le> max v1 V'"
  proof (cases "S' \<le> s1")
    case True
    then have "alpha < Num s1" using a by (simp add: max_def)
    then have "s1 \<le> v1" using assms(1) by (simp add: bounded_def)
    then show ?thesis using True by simp
  next
    case False
    then have "alpha < Num S'" "Num s1 < Num S'" using a by (simp_all add: max_def)
    then have "max alpha (Num s1) < Num S'" by simp
    then have "S' \<le> V'" using assms(2) by (simp add: bounded_def)
    then show ?thesis using False by simp
  qed
next
  assume b: "Num (max s1 S') < beta"
  have "Num s1 \<le> Num (max s1 S')" "Num S' \<le> Num (max s1 S')" by simp_all
  then have "Num s1 < beta" "Num S' < beta" using b by (meson le_less_trans)+
  then have "v1 \<le> s1" "V' \<le> S'" using assms by (simp_all add: bounded_def)
  then show "max v1 V' \<le> max s1 S'" by (auto simp: max_def)
qed

lemma bounded_min_step:
  assumes "bounded s1 v1 alpha beta" "bounded S' V' alpha (min beta (Num s1))"
  shows "bounded (min s1 S') (min v1 V') alpha beta"
  unfolding bounded_def
proof (intro conjI impI)
  assume b: "Num (min s1 S') < beta"
  show "min v1 V' \<le> min s1 S'"
  proof (cases "s1 \<le> S'")
    case True
    then have "Num s1 < beta" using b by (simp add: min_def)
    then have "v1 \<le> s1" using assms(1) by (simp add: bounded_def)
    then show ?thesis using True by simp
  next
    case False
    then have "Num S' < beta" "Num S' < Num s1" using b by (simp_all add: min_def)
    then have "Num S' < min beta (Num s1)" by simp
    then have "V' \<le> S'" using assms(2) by (simp add: bounded_def)
    then show ?thesis using False by simp
  qed
next
  assume a: "alpha < Num (min s1 S')"
  have "Num (min s1 S') \<le> Num s1" "Num (min s1 S') \<le> Num S'" by simp_all
  then have "alpha < Num s1" "alpha < Num S'" using a by (meson less_le_trans)+
  then have "s1 \<le> v1" "S' \<le> V'" using assms by (simp_all add: bounded_def)
  then show "min s1 S' \<le> min v1 V'" by (auto simp: min_def)
qed

text \<open>When the loop stops early, the one score it has is beyond the window.\<close>

lemma bounded_max_cut:
  assumes "bounded s1 v1 alpha beta" "alpha < beta" "beta \<le> max alpha (Num s1)" "v1 \<le> V"
  shows "bounded s1 V alpha beta"
proof -
  have "beta \<le> Num s1" using assms(2,3) by (simp add: max_def split: if_splits)
  then have "alpha < Num s1" "\<not> Num s1 < beta" using assms(2) by auto
  then show ?thesis using assms(1,4) by (simp add: bounded_def)
qed

lemma bounded_min_cut:
  assumes "bounded s1 v1 alpha beta" "alpha < beta" "min beta (Num s1) \<le> alpha" "V \<le> v1"
  shows "bounded s1 V alpha beta"
proof -
  have "Num s1 \<le> alpha" using assms(2,3) by (simp add: min_def split: if_splits)
  then have "Num s1 < beta" "\<not> alpha < Num s1" using assms(2) by auto
  then show ?thesis using assms(1,4) by (simp add: bounded_def)
qed

lemma bounded_refl: "bounded s s alpha beta"
  by (simp add: bounded_def)

lemma minimax_loop_step_O:
  assumes "minimax (js_write b c (Mark PlayerO)) PlayerX alpha beta
             = (Inr (Obj res), js_write b c (Mark PlayerO))"
    "c < length b" "b ! c = Null"
  shows "minimax_loop (c # cs) b PlayerO alpha beta moves =
    (if beta \<le> max alpha (Num (score res))
     then (Inr (moves @ [\<lparr>index = Some c, score = score res\<rparr>]), b)
     else minimax_loop cs b PlayerO (max alpha (Num (score res))) beta
            (moves @ [\<lparr>index = Some c, score = score res\<rparr>]))"
  using minimax_loop_step[of b c PlayerO alpha beta res "js_write b c (Mark PlayerO)" cs moves]
    assms
  by (simp add: Let_def js_write_restore js_ge_iff Math_max_eq)

lemma minimax_loop_step_X:
  assumes "minimax (js_write b c (Mark PlayerX)) PlayerO alpha beta
             = (Inr (Obj res), js_write b c (Mark PlayerX))"
    "c < length b" "b ! c = Null"
  shows "minimax_loop (c # cs) b PlayerX alpha beta moves =
    (if min beta (Num (score res)) \<le> alpha
     then (Inr (moves @ [\<lparr>index = Some c, score = score res\<rparr>]), b)
     else minimax_loop cs b PlayerX alpha (min beta (Num (score res)))
            (moves @ [\<lparr>index = Some c, score = score res\<rparr>]))"
  using minimax_loop_step[of b c PlayerX alpha beta res "js_write b c (Mark PlayerX)" cs moves]
    assms
  by (simp add: Let_def js_write_restore js_ge_iff Math_min_eq)

lemma loop_PlayerO:
  assumes "\<And>c alpha beta. c \<in> set cs \<Longrightarrow> alpha < beta \<Longrightarrow>
      \<exists>res. minimax (js_write b c (Mark PlayerO)) PlayerX alpha beta
               = (Inr (Obj res), js_write b c (Mark PlayerO)) \<and>
            bounded (score res) (gameValue (js_write b c (Mark PlayerO)) PlayerX) alpha beta"
    and "\<forall>c\<in>set cs. c < length b \<and> b ! c = Null" and "cs \<noteq> []" and "alpha < beta"
  shows "\<exists>R. minimax_loop cs b PlayerO alpha beta moves = (Inr (moves @ R), b) \<and> R \<noteq> [] \<and>
      length R \<le> length cs \<and> (\<forall>i<length R. index (R ! i) = Some (cs ! i)) \<and>
      bounded (Max (score ` set R))
        (Max ((\<lambda>c. gameValue (js_write b c (Mark PlayerO)) PlayerX) ` set cs)) alpha beta \<and>
      (\<forall>i<length R. alpha < Num (score (R ! i)) \<and> (\<forall>j<i. score (R ! j) < score (R ! i)) \<longrightarrow>
          score (R ! i) \<le> gameValue (js_write b (cs ! i) (Mark PlayerO)) PlayerX)"
  using assms
proof (induction cs arbitrary: alpha moves)
  case Nil
  then show ?case by simp
next
  case (Cons c cs)
  let ?f = "\<lambda>c. gameValue (js_write b c (Mark PlayerO)) PlayerX"
  from Cons.prems(1)[of c alpha beta] Cons.prems(4) obtain res where
    r: "minimax (js_write b c (Mark PlayerO)) PlayerX alpha beta
          = (Inr (Obj res), js_write b c (Mark PlayerO))"
    and br: "bounded (score res) (?f c) alpha beta" by auto
  let ?m = "\<lparr>index = Some c, score = score res\<rparr>"
  let ?a = "max alpha (Num (score res))"
  have c: "c < length b" "b ! c = Null" using Cons.prems(2) by simp_all
  note step = minimax_loop_step_O[OF r c, of cs moves]
  have first: "alpha < Num (score res) \<longrightarrow> score res \<le> ?f c"
    using br by (simp add: bounded_def)
  show ?case
  proof (cases "beta \<le> ?a")
    case True
    have "?f c \<le> Max (?f ` set (c # cs))" by (intro Max_ge) simp_all
    then have "bounded (score res) (Max (?f ` set (c # cs))) alpha beta"
      using bounded_max_cut[OF br Cons.prems(4) True] by simp
    then show ?thesis using step True first
      by (intro exI[of _ "[?m]"]) simp
  next
    case False
    then have ab: "?a < beta" by (simp add: not_le)
    show ?thesis
    proof (cases "cs = []")
      case True
      then show ?thesis using step False br first
        by (intro exI[of _ "[?m]"]) (simp add: minimax_loop.simps)
    next
      case ne: False
      from Cons.IH[of ?a "moves @ [?m]", OF _ _ ne ab] Cons.prems(1,2) obtain R where
        R: "minimax_loop cs b PlayerO ?a beta (moves @ [?m]) = (Inr ((moves @ [?m]) @ R), b)"
           "R \<noteq> []" "length R \<le> length cs" "\<forall>i<length R. index (R ! i) = Some (cs ! i)"
           "bounded (Max (score ` set R)) (Max (?f ` set cs)) ?a beta"
           "\<forall>i<length R. ?a < Num (score (R ! i)) \<and> (\<forall>j<i. score (R ! j) < score (R ! i)) \<longrightarrow>
              score (R ! i) \<le> ?f (cs ! i)"
        by auto
      have loop: "minimax_loop (c # cs) b PlayerO alpha beta moves = (Inr (moves @ (?m # R)), b)"
        using step False R(1) by simp
      have mS: "Max (score ` set (?m # R)) = max (score res) (Max (score ` set R))"
        using R(2) by (simp add: Max_insert)
      have mV: "Max (?f ` set (c # cs)) = max (?f c) (Max (?f ` set cs))"
        using ne by (simp add: Max_insert)
      have bd: "bounded (Max (score ` set (?m # R))) (Max (?f ` set (c # cs))) alpha beta"
        unfolding mS mV using bounded_max_step[OF br R(5)] .
      have idx: "\<forall>i<length (?m # R). index ((?m # R) ! i) = Some ((c # cs) ! i)"
        using R(4) by (auto simp: nth_Cons split: nat.splits)
      have ex: "\<forall>i<length (?m # R). alpha < Num (score ((?m # R) ! i)) \<and>
            (\<forall>j<i. score ((?m # R) ! j) < score ((?m # R) ! i)) \<longrightarrow>
            score ((?m # R) ! i) \<le> ?f ((c # cs) ! i)"
      proof (intro allI impI)
        fix i assume i: "i < length (?m # R)"
          and h: "alpha < Num (score ((?m # R) ! i)) \<and>
            (\<forall>j<i. score ((?m # R) ! j) < score ((?m # R) ! i))"
        show "score ((?m # R) ! i) \<le> ?f ((c # cs) ! i)"
        proof (cases i)
          case 0
          then show ?thesis using h first by simp
        next
          case (Suc i')
          have "score res < score (R ! i')" using h Suc by auto
          moreover have "alpha < Num (score (R ! i'))" using h Suc by simp
          ultimately have "?a < Num (score (R ! i'))" by simp
          moreover have "\<forall>j<i'. score (R ! j) < score (R ! i')" using h Suc by auto
          ultimately show ?thesis using R(6) i Suc by simp
        qed
      qed
      show ?thesis
        using loop R(3) bd idx ex by (intro exI[of _ "?m # R"]) simp
    qed
  qed
qed

lemma loop_PlayerX:
  assumes "\<And>c alpha beta. c \<in> set cs \<Longrightarrow> alpha < beta \<Longrightarrow>
      \<exists>res. minimax (js_write b c (Mark PlayerX)) PlayerO alpha beta
               = (Inr (Obj res), js_write b c (Mark PlayerX)) \<and>
            bounded (score res) (gameValue (js_write b c (Mark PlayerX)) PlayerO) alpha beta"
    and "\<forall>c\<in>set cs. c < length b \<and> b ! c = Null" and "cs \<noteq> []" and "alpha < beta"
  shows "\<exists>R. minimax_loop cs b PlayerX alpha beta moves = (Inr (moves @ R), b) \<and> R \<noteq> [] \<and>
      bounded (Min (score ` set R))
        (Min ((\<lambda>c. gameValue (js_write b c (Mark PlayerX)) PlayerO) ` set cs)) alpha beta"
  using assms
proof (induction cs arbitrary: beta moves)
  case Nil
  then show ?case by simp
next
  case (Cons c cs)
  let ?f = "\<lambda>c. gameValue (js_write b c (Mark PlayerX)) PlayerO"
  from Cons.prems(1)[of c alpha beta] Cons.prems(4) obtain res where
    r: "minimax (js_write b c (Mark PlayerX)) PlayerO alpha beta
          = (Inr (Obj res), js_write b c (Mark PlayerX))"
    and br: "bounded (score res) (?f c) alpha beta" by auto
  let ?m = "\<lparr>index = Some c, score = score res\<rparr>"
  let ?be = "min beta (Num (score res))"
  have c: "c < length b" "b ! c = Null" using Cons.prems(2) by simp_all
  note step = minimax_loop_step_X[OF r c, of cs moves]
  show ?case
  proof (cases "?be \<le> alpha")
    case True
    have "Min (?f ` set (c # cs)) \<le> ?f c" by (intro Min_le) simp_all
    then have "bounded (score res) (Min (?f ` set (c # cs))) alpha beta"
      using bounded_min_cut[OF br Cons.prems(4) True] by simp
    then show ?thesis using step True
      by (intro exI[of _ "[?m]"]) simp
  next
    case False
    then have ab: "alpha < ?be" by (simp add: not_le)
    show ?thesis
    proof (cases "cs = []")
      case True
      then show ?thesis using step False br
        by (intro exI[of _ "[?m]"]) (simp add: minimax_loop.simps)
    next
      case ne: False
      from Cons.IH[of ?be "moves @ [?m]", OF _ _ ne ab] Cons.prems(1,2) obtain R where
        R: "minimax_loop cs b PlayerX alpha ?be (moves @ [?m]) = (Inr ((moves @ [?m]) @ R), b)"
           "R \<noteq> []" "bounded (Min (score ` set R)) (Min (?f ` set cs)) alpha ?be"
        by auto
      have loop: "minimax_loop (c # cs) b PlayerX alpha beta moves = (Inr (moves @ (?m # R)), b)"
        using step False R(1) by simp
      have mS: "Min (score ` set (?m # R)) = min (score res) (Min (score ` set R))"
        using R(2) by (simp add: Min_insert)
      have mV: "Min (?f ` set (c # cs)) = min (?f c) (Min (?f ` set cs))"
        using ne by (simp add: Min_insert)
      have bd: "bounded (Min (score ` set (?m # R))) (Min (?f ` set (c # cs))) alpha beta"
        unfolding mS mV using bounded_min_step[OF br R(3)] .
      show ?thesis
        using loop bd by (intro exI[of _ "?m # R"]) simp
    qed
  qed
qed

lemma good_emptyCellsOf: "\<forall>c\<in>set (emptyCellsOf b). c < length b \<and> b ! c = Null"
  by (simp add: set_emptyCellsOf)

lemma minimax_nonterminal:
  assumes "\<not> checkWinOnBoard b PlayerX" "\<not> checkWinOnBoard b PlayerO" "emptyCellsOf b \<noteq> []"
    "minimax_loop (emptyCellsOf b) b p alpha beta [] = (Inr R, b')"
  shows "minimax b p alpha beta = (Inr (selectBest p R), b')"
  using assms by (subst minimax.simps) (simp add: Let_def)

lemma selectBest_Max:
  assumes "R \<noteq> []"
  shows "\<exists>k<length R. selectBest PlayerO R = Obj (R ! k) \<and> score (R ! k) = Max (score ` set R) \<and>
           (\<forall>j<k. score (R ! j) < score (R ! k))"
proof -
  from selectBest_first[OF assms, of PlayerO] obtain k where
    k: "k < length R" "selectBest PlayerO R = Obj (R ! k)"
       "\<forall>j<length R. score (R ! j) \<le> score (R ! k)" "\<forall>j<k. score (R ! j) \<noteq> score (R ! k)"
    by auto
  have "Max (score ` set R) = score (R ! k)"
  proof (rule Max_eqI)
    show "score (R ! k) \<in> score ` set R" using k(1) by simp
    show "y \<le> score (R ! k)" if "y \<in> score ` set R" for y
      using that k(3) by (auto simp: in_set_conv_nth)
  qed simp
  moreover have "\<forall>j<k. score (R ! j) < score (R ! k)"
    using k(1,3,4) by (metis le_neq_trans less_trans)
  ultimately show ?thesis using k(1,2) by auto
qed

lemma selectBest_Min:
  assumes "R \<noteq> []"
  shows "\<exists>k<length R. selectBest PlayerX R = Obj (R ! k) \<and> score (R ! k) = Min (score ` set R)"
proof -
  from selectBest_first[OF assms, of PlayerX] obtain k where
    k: "k < length R" "selectBest PlayerX R = Obj (R ! k)"
       "\<forall>j<length R. score (R ! k) \<le> score (R ! j)"
    by auto
  have "Min (score ` set R) = score (R ! k)"
  proof (rule Min_eqI)
    show "score (R ! k) \<in> score ` set R" using k(1) by simp
    show "score (R ! k) \<le> y" if "y \<in> score ` set R" for y
      using that k(3) by (auto simp: in_set_conv_nth)
  qed simp
  then show ?thesis using k(1,2) by auto
qed

text \<open>The score that the pruned search returns bounds the value of the position.\<close>

lemma minimax_bounded:
  "\<forall>alpha beta. alpha < beta \<longrightarrow>
     (\<exists>res. minimax b p alpha beta = (Inr (Obj res), b) \<and>
            bounded (score res) (gameValue b p) alpha beta)"
proof (induction b p rule: gameValue.induct)
  case (1 b p)
  show ?case
  proof (intro allI impI)
    fix alpha beta :: js_number
    assume ab: "alpha < beta"
    consider (x) "checkWinOnBoard b PlayerX"
      | (o) "\<not> checkWinOnBoard b PlayerX" "checkWinOnBoard b PlayerO"
      | (full) "\<not> checkWinOnBoard b PlayerX" "\<not> checkWinOnBoard b PlayerO" "emptyCellsOf b = []"
      | (go) "\<not> checkWinOnBoard b PlayerX" "\<not> checkWinOnBoard b PlayerO" "emptyCellsOf b \<noteq> []"
      by blast
    then show "\<exists>res. minimax b p alpha beta = (Inr (Obj res), b) \<and>
            bounded (score res) (gameValue b p) alpha beta"
    proof cases
      case x
      then show ?thesis
        by (subst minimax.simps, subst gameValue.simps) (simp add: Let_def bounded_refl)
    next
      case o
      then show ?thesis
        by (subst minimax.simps, subst gameValue.simps) (simp add: Let_def bounded_refl)
    next
      case full
      then show ?thesis
        by (subst minimax.simps, subst gameValue.simps) (simp add: Let_def bounded_refl)
    next
      case go
      show ?thesis
      proof (cases p)
        case PlayerO
        have child: "\<exists>res. minimax (js_write b c (Mark PlayerO)) PlayerX a be
               = (Inr (Obj res), js_write b c (Mark PlayerO)) \<and>
            bounded (score res) (gameValue (js_write b c (Mark PlayerO)) PlayerX) a be"
          if "c \<in> set (emptyCellsOf b)" "a < be" for c a be
          using "1.IH"(1)[OF go(1,2,3) PlayerO that(1)] that(2) by blast
        from loop_PlayerO[OF child good_emptyCellsOf go(3) ab, of "[]"] obtain R where
          R: "minimax_loop (emptyCellsOf b) b PlayerO alpha beta [] = (Inr R, b)" "R \<noteq> []"
             "bounded (Max (score ` set R))
               (Max ((\<lambda>c. gameValue (js_write b c (Mark PlayerO)) PlayerX) ` set (emptyCellsOf b)))
               alpha beta"
          by auto
        from selectBest_Max[OF R(2)] obtain k where
          k: "selectBest PlayerO R = Obj (R ! k)" "score (R ! k) = Max (score ` set R)" by auto
        have gv: "gameValue b p =
            Max ((\<lambda>c. gameValue (js_write b c (Mark PlayerO)) PlayerX) ` set (emptyCellsOf b))"
          using go PlayerO by (subst gameValue.simps) simp
        show ?thesis
          using minimax_nonterminal[OF go, of PlayerO alpha beta R b] R(1,3) k gv PlayerO
          by simp
      next
        case PlayerX
        have child: "\<exists>res. minimax (js_write b c (Mark PlayerX)) PlayerO a be
               = (Inr (Obj res), js_write b c (Mark PlayerX)) \<and>
            bounded (score res) (gameValue (js_write b c (Mark PlayerX)) PlayerO) a be"
          if "c \<in> set (emptyCellsOf b)" "a < be" for c a be
          using "1.IH"(2)[OF go(1,2,3) _ that(1)] PlayerX that(2) by blast
        from loop_PlayerX[OF child good_emptyCellsOf go(3) ab, of "[]"] obtain R where
          R: "minimax_loop (emptyCellsOf b) b PlayerX alpha beta [] = (Inr R, b)" "R \<noteq> []"
             "bounded (Min (score ` set R))
               (Min ((\<lambda>c. gameValue (js_write b c (Mark PlayerX)) PlayerO) ` set (emptyCellsOf b)))
               alpha beta"
          by auto
        from selectBest_Min[OF R(2)] obtain k where
          k: "selectBest PlayerX R = Obj (R ! k)" "score (R ! k) = Min (score ` set R)" by auto
        have gv: "gameValue b p =
            Min ((\<lambda>c. gameValue (js_write b c (Mark PlayerX)) PlayerO) ` set (emptyCellsOf b))"
          using go PlayerX by (subst gameValue.simps) simp
        show ?thesis
          using minimax_nonterminal[OF go, of PlayerX alpha beta R b] R(1,3) k gv PlayerX
          by simp
      qed
    qed
  qed
qed

text \<open>The value of a position, case by case.\<close>

lemma gameValue_X_wins: "checkWinOnBoard b PlayerX \<Longrightarrow> gameValue b p = - 10"
  by (subst gameValue.simps) simp

lemma gameValue_over:
  "\<not> checkWinOnBoard b PlayerX \<Longrightarrow> checkWinOnBoard b PlayerO \<or> emptyCellsOf b = [] \<Longrightarrow>
   0 \<le> gameValue b p"
  by (subst gameValue.simps) auto

lemma gameValue_O:
  "\<not> checkWinOnBoard b PlayerX \<Longrightarrow> \<not> checkWinOnBoard b PlayerO \<Longrightarrow> emptyCellsOf b \<noteq> [] \<Longrightarrow>
   gameValue b PlayerO =
     Max ((\<lambda>c. gameValue (js_write b c (Mark PlayerO)) PlayerX) ` set (emptyCellsOf b))"
  by (subst gameValue.simps) simp

lemma gameValue_X:
  "\<not> checkWinOnBoard b PlayerX \<Longrightarrow> \<not> checkWinOnBoard b PlayerO \<Longrightarrow> emptyCellsOf b \<noteq> [] \<Longrightarrow>
   gameValue b PlayerX =
     Min ((\<lambda>c. gameValue (js_write b c (Mark PlayerX)) PlayerO) ` set (emptyCellsOf b))"
  by (subst gameValue.simps) simp

lemma gameValue_O_ge:
  assumes "\<not> checkWinOnBoard b PlayerX" "c \<in> set (emptyCellsOf b)"
    "0 \<le> gameValue (js_write b c (Mark PlayerO)) PlayerX"
  shows "0 \<le> gameValue b PlayerO"
proof (cases "checkWinOnBoard b PlayerO")
  case True
  then show ?thesis using assms(1) gameValue_over by blast
next
  case False
  have ne: "emptyCellsOf b \<noteq> []" using assms(2) by auto
  have "gameValue (js_write b c (Mark PlayerO)) PlayerX
      \<le> Max ((\<lambda>c. gameValue (js_write b c (Mark PlayerO)) PlayerX) ` set (emptyCellsOf b))"
    using assms(2) by (intro Max_ge) simp_all
  then show ?thesis using assms(3) gameValue_O[OF assms(1) False ne] by simp
qed

lemma gameValue_X_ge:
  assumes "\<not> checkWinOnBoard b PlayerX"
    "\<forall>c\<in>set (emptyCellsOf b). 0 \<le> gameValue (js_write b c (Mark PlayerX)) PlayerO"
  shows "0 \<le> gameValue b PlayerX"
proof (cases "checkWinOnBoard b PlayerO \<or> emptyCellsOf b = []")
  case True
  then show ?thesis using assms(1) gameValue_over by blast
next
  case False
  then have "gameValue b PlayerX =
     Min ((\<lambda>c. gameValue (js_write b c (Mark PlayerX)) PlayerO) ` set (emptyCellsOf b))"
    using gameValue_X assms(1) by simp
  moreover have "0 \<le> Min ((\<lambda>c. gameValue (js_write b c (Mark PlayerX)) PlayerO) ` set (emptyCellsOf b))"
    using assms(2) False by (subst Min_ge_iff) auto
  ultimately show ?thesis by simp
qed

lemma gameValue_X_le:
  assumes "\<not> checkWinOnBoard b PlayerX" "\<not> checkWinOnBoard b PlayerO" "c \<in> set (emptyCellsOf b)"
  shows "gameValue b PlayerX \<le> gameValue (js_write b c (Mark PlayerX)) PlayerO"
proof -
  have ne: "emptyCellsOf b \<noteq> []" using assms(3) by auto
  have "Min ((\<lambda>c. gameValue (js_write b c (Mark PlayerX)) PlayerO) ` set (emptyCellsOf b))
      \<le> gameValue (js_write b c (Mark PlayerX)) PlayerO"
    using assms(3) by (intro Min_le) simp_all
  then show ?thesis using gameValue_X[OF assms(1,2) ne] by simp
qed

text \<open>A strategy that checks out keeps the value of the position at 0 or more.\<close>

lemma holds_sound:
  "holdsX b cs sts \<Longrightarrow> \<forall>c\<in>set cs. 0 \<le> gameValue (js_write b c (Mark PlayerX)) PlayerO"
  "holdsO b st \<Longrightarrow> 0 \<le> gameValue b PlayerO"
proof (induction b cs sts and b st rule: holdsX_holdsO.induct)
  case (1 b)
  then show ?case by simp
next
  case (2 b c cs st sts)
  then show ?case by simp
next
  case (3 b st sts)
  then show ?case by simp
next
  case (4 b c cs)
  then show ?case by simp
next
  case (5 b)
  then show ?case using gameValue_over by simp
next
  case (6 b j sts)
  let ?b' = "js_write b j (Mark PlayerO)"
  from "6.prems" have nx: "\<not> checkWinOnBoard b PlayerX" and j: "js_read b j = Null"
    by (auto split: if_splits)
  have jin: "j \<in> set (emptyCellsOf b)" using j by (simp add: nulls_emptyCellsOf)
  have nx': "\<not> checkWinOnBoard ?b' PlayerX" using win_write_other[of b j PlayerO PlayerX] nx by auto
  have "0 \<le> gameValue ?b' PlayerX"
  proof (cases "checkWinOnBoard ?b' PlayerO \<or> emptyCellsOf ?b' = []")
    case True
    then show ?thesis using nx' gameValue_over by blast
  next
    case False
    then have "holdsX ?b' (emptyCellsOf ?b') sts"
      using "6.prems" nx j by (simp add: Let_def)
    then have "\<forall>c\<in>set (emptyCellsOf ?b'). 0 \<le> gameValue (js_write ?b' c (Mark PlayerX)) PlayerO"
      using "6.IH"[OF nx _ refl _ refl] False j by simp
    then show ?thesis using nx' by (rule gameValue_X_ge[rotated])
  qed
  then show ?case using gameValue_O_ge[OF nx jin] by simp
qed

lemma holds_replyTo0: "holdsO (js_write initialBoard 0 (Mark PlayerX)) replyTo0"
  by code_simp

lemma holds_replyTo1: "holdsO (js_write initialBoard 1 (Mark PlayerX)) replyTo1"
  by code_simp

lemma holds_replyTo2: "holdsO (js_write initialBoard 2 (Mark PlayerX)) replyTo2"
  by code_simp

lemma holds_replyTo3: "holdsO (js_write initialBoard 3 (Mark PlayerX)) replyTo3"
  by code_simp

lemma holds_replyTo4: "holdsO (js_write initialBoard 4 (Mark PlayerX)) replyTo4"
  by code_simp

lemma holds_replyTo5: "holdsO (js_write initialBoard 5 (Mark PlayerX)) replyTo5"
  by code_simp

lemma holds_replyTo6: "holdsO (js_write initialBoard 6 (Mark PlayerX)) replyTo6"
  by code_simp

lemma holds_replyTo7: "holdsO (js_write initialBoard 7 (Mark PlayerX)) replyTo7"
  by code_simp

lemma holds_replyTo8: "holdsO (js_write initialBoard 8 (Mark PlayerX)) replyTo8"
  by code_simp

lemma emptyCellsOf_initialBoard: "emptyCellsOf initialBoard = [0, 1, 2, 3, 4, 5, 6, 7, 8]"
  by code_simp

lemma gameValue_initialBoard: "0 \<le> gameValue initialBoard PlayerX"
proof (rule gameValue_X_ge)
  show "\<not> checkWinOnBoard initialBoard PlayerX"
    by (simp add: initialBoard_def win_replicate_Null)
  show "\<forall>c\<in>set (emptyCellsOf initialBoard). 0 \<le> gameValue (js_write initialBoard c (Mark PlayerX)) PlayerO"
    unfolding emptyCellsOf_initialBoard
    using holds_sound(2)[OF holds_replyTo0] holds_sound(2)[OF holds_replyTo1]
      holds_sound(2)[OF holds_replyTo2] holds_sound(2)[OF holds_replyTo3]
      holds_sound(2)[OF holds_replyTo4] holds_sound(2)[OF holds_replyTo5]
      holds_sound(2)[OF holds_replyTo6] holds_sound(2)[OF holds_replyTo7]
      holds_sound(2)[OF holds_replyTo8]
    by simp
qed

text \<open>
  At the root the window is open on both sides, so the score found is the value of the
  position and the move returned reaches it.
\<close>

lemma getBestMove_optimal:
  assumes "\<not> checkWinOnBoard (board s) PlayerX" "\<not> checkWinOnBoard (board s) PlayerO"
    "emptyCellsOf (board s) \<noteq> []"
  shows "\<exists>c. getBestMove s = (Inr (Some c), s) \<and> c \<in> set (emptyCellsOf (board s)) \<and>
           gameValue (js_write (board s) c (Mark PlayerO)) PlayerX = gameValue (board s) PlayerO"
proof -
  let ?b = "board s"
  let ?cs = "emptyCellsOf ?b"
  let ?f = "\<lambda>c. gameValue (js_write ?b c (Mark PlayerO)) PlayerX"
  have child: "\<exists>res. minimax (js_write ?b c (Mark PlayerO)) PlayerX a be
         = (Inr (Obj res), js_write ?b c (Mark PlayerO)) \<and>
      bounded (score res) (gameValue (js_write ?b c (Mark PlayerO)) PlayerX) a be"
    if "c \<in> set ?cs" "a < be" for c a be
    using minimax_bounded that(2) by blast
  have w: "NegInfinity < Infinity" by simp
  from loop_PlayerO[OF child good_emptyCellsOf assms(3) w, of "[]"] obtain R where
    R: "minimax_loop ?cs ?b PlayerO NegInfinity Infinity [] = (Inr R, ?b)" "R \<noteq> []"
       "length R \<le> length ?cs" "\<forall>i<length R. index (R ! i) = Some (?cs ! i)"
       "bounded (Max (score ` set R)) (Max (?f ` set ?cs)) NegInfinity Infinity"
       "\<forall>i<length R. NegInfinity < Num (score (R ! i)) \<and> (\<forall>j<i. score (R ! j) < score (R ! i)) \<longrightarrow>
          score (R ! i) \<le> ?f (?cs ! i)"
    by auto
  from selectBest_Max[OF R(2)] obtain k where
    k: "k < length R" "selectBest PlayerO R = Obj (R ! k)" "score (R ! k) = Max (score ` set R)"
       "\<forall>j<k. score (R ! j) < score (R ! k)" by auto
  have kcs: "?cs ! k \<in> set ?cs" using k(1) R(3) by simp
  have eq: "Max (score ` set R) = Max (?f ` set ?cs)"
    using R(5) by (simp add: bounded_def)
  have "score (R ! k) \<le> ?f (?cs ! k)" using R(6) k(1,4) by simp
  moreover have "?f (?cs ! k) \<le> Max (?f ` set ?cs)" using kcs by (intro Max_ge) simp_all
  ultimately have "?f (?cs ! k) = Max (?f ` set ?cs)" using k(3) eq by simp
  then have val: "?f (?cs ! k) = gameValue ?b PlayerO" using gameValue_O[OF assms] by simp
  have "minimax ?b PlayerO NegInfinity Infinity = (Inr (Obj (R ! k)), ?b)"
    using minimax_nonterminal[OF assms R(1)] k(2) by simp
  then have "getBestMove s = (Inr (Some (?cs ! k)), s)"
    using R(4) k(1) by (simp add: getBestMove_def Let_def)
  then show ?thesis using kcs val by blast
qed

lemma holding_start: "holding (initialState\<lparr> mode := m, difficulty := d, scores := sc \<rparr>)"
proof -
  have "emptyCellsOf initialBoard \<noteq> []" by (simp add: emptyCellsOf_initialBoard)
  then show ?thesis
    using gameValue_initialBoard
    by (simp add: holding_def initialState_def win_replicate_Null[of 9, folded initialBoard_def])
       (simp add: initialBoard_def)
qed

lemma holding_makeMove:
  assumes "holding s" "i \<in> set (emptyCellsOf (board s))" "snd (makeMove i p s) = s'"
    "\<not> gameOver s" "0 \<le> gameValue (js_write (board s) i (Mark p)) (currentPlayer s')"
  shows "holding s'"
proof -
  have nt: "\<not> truthy (js_read (board s) i)" using assms(2) by (simp add: nulls_emptyCellsOf)
  note m = makeMove_moved[OF assms(3,4) nt]
  let ?b = "board s" and ?b' = "board s'"
  have h: "length ?b = 9" "Hole \<notin> set ?b" "\<not> checkWinOnBoard ?b PlayerX"
    "\<not> checkWinOnBoard ?b PlayerO"
    using assms(1) m(1) by (simp_all add: holding_def)
  have i: "i < length ?b" "?b ! i = Null" using assms(2) by (simp_all add: set_emptyCellsOf)
  have b': "?b' = ?b[i := Mark p]" using m(3) i by (simp add: js_write_def)
  have len: "length ?b' = 9" using b' h(1) by simp
  have hole: "Hole \<notin> set ?b'"
    using h(2) set_update_subset_insert[of ?b i "Mark p"] b' by auto
  have v: "0 \<le> gameValue ?b' (currentPlayer s')" using assms(5) m(3) by simp
  have nx: "\<not> checkWinOnBoard ?b' PlayerX"
    using v gameValue_X_wins[of ?b' "currentPlayer s'"] by auto
  show ?thesis
  proof (cases "gameOver s'")
    case True
    have "checkWinOnBoard ?b' PlayerO \<or> emptyCellsOf ?b' = []"
    proof (cases p)
      case PlayerX
      then show ?thesis using True m(7) nx by (simp add: everyCell_iff emptyCellsOf_Nil_iff)
    next
      case PlayerO
      then show ?thesis using True m(7) by (auto simp: everyCell_iff emptyCellsOf_Nil_iff)
    qed
    then show ?thesis using True len hole nx by (simp add: holding_def)
  next
    case False
    have "\<not> checkWinOnBoard ?b' q" for q
    proof (cases "q = p")
      case True
      then show ?thesis using False m(7) by simp
    next
      case False
      then show ?thesis using win_write_other[of ?b i p q] h(3,4) m(3) by (cases q) auto
    qed
    moreover have "emptyCellsOf ?b' \<noteq> []"
      using False m(7) by (simp add: everyCell_iff emptyCellsOf_Nil_iff)
    ultimately show ?thesis using False len hole v by (simp add: holding_def)
  qed
qed

lemma played_holding: "played s \<Longrightarrow> holding s"
proof (induction rule: played.induct)
  case (play_start m d sc)
  show ?case by (rule holding_start)
next
  case (play_X s i)
  show ?case
  proof (cases "truthy (js_read (board s) i) \<or> gameOver s")
    case True
    then show ?thesis using play_X.IH makeMove_rejected[of s i PlayerX] by simp
  next
    case False
    define s' where "s' = snd (makeMove i PlayerX s)"
    have g: "\<not> gameOver s" and t: "\<not> truthy (js_read (board s) i)" using False by simp_all
    note m = makeMove_moved[OF s'_def[symmetric] g t]
    have h: "length (board s) = 9" "Hole \<notin> set (board s)" "\<not> checkWinOnBoard (board s) PlayerX"
      "\<not> checkWinOnBoard (board s) PlayerO" "0 \<le> gameValue (board s) PlayerX"
      using play_X.IH g play_X.hyps(2) by (simp_all add: holding_def)
    have "board s ! i \<in> set (board s)" using h(1) play_X.hyps(3) by simp
    then have nh: "board s ! i \<noteq> Hole" using h(2) by metis
    have nt: "\<not> truthy (board s ! i)" using t h(1) play_X.hyps(3) by (simp add: js_read_def)
    have "board s ! i = Null" using nh nt by (cases "board s ! i") simp_all
    then have i: "i \<in> set (emptyCellsOf (board s))"
      using h(1) play_X.hyps(3) by (simp add: set_emptyCellsOf)
    have v: "0 \<le> gameValue (js_write (board s) i (Mark PlayerX)) PlayerO"
      using gameValue_X_le[OF h(3,4) i] h(5) by simp
    have "0 \<le> gameValue (js_write (board s) i (Mark PlayerX)) (currentPlayer s')"
    proof (cases "gameOver s'")
      case False
      then show ?thesis using v m(8) play_X.hyps(2) by simp
    next
      case True
      have nx: "\<not> checkWinOnBoard (board s') PlayerX"
        using v gameValue_X_wins[of "board s'" PlayerO] m(3) by auto
      then have "emptyCellsOf (board s') = []"
        using True m(7) by (simp add: everyCell_iff emptyCellsOf_Nil_iff)
      then show ?thesis using gameValue_over[OF nx] m(3) by simp
    qed
    then have "holding s'"
      using holding_makeMove[OF play_X.IH i s'_def[symmetric] g] by simp
    then show ?thesis by (simp add: s'_def)
  qed
next
  case (play_O s i s1)
  have h: "\<not> checkWinOnBoard (board s) PlayerX" "\<not> checkWinOnBoard (board s) PlayerO"
    "emptyCellsOf (board s) \<noteq> []" "0 \<le> gameValue (board s) PlayerO"
    using play_O.IH play_O.hyps(2,3) by (simp_all add: holding_def)
  from getBestMove_optimal[OF h(1,2,3)] play_O.hyps(4) have
    s1: "s1 = s" and i: "i \<in> set (emptyCellsOf (board s))"
    and v: "gameValue (js_write (board s) i (Mark PlayerO)) PlayerX = gameValue (board s) PlayerO"
    by auto
  define s' where "s' = snd (makeMove i PlayerO s)"
  have t: "\<not> truthy (js_read (board s) i)" using i by (simp add: nulls_emptyCellsOf)
  note m = makeMove_moved[OF s'_def[symmetric] play_O.hyps(3) t]
  have vx: "0 \<le> gameValue (js_write (board s) i (Mark PlayerO)) PlayerX" using v h(4) by simp
  have "0 \<le> gameValue (js_write (board s) i (Mark PlayerO)) (currentPlayer s')"
  proof (cases "gameOver s'")
    case False
    then show ?thesis using vx m(8) play_O.hyps(2) by simp
  next
    case True
    have nx: "\<not> checkWinOnBoard (board s') PlayerX"
      using vx gameValue_X_wins[of "board s'" PlayerX] m(3) by auto
    have "checkWinOnBoard (board s') PlayerO \<or> emptyCellsOf (board s') = []"
      using True m(7) by (auto simp: everyCell_iff emptyCellsOf_Nil_iff)
    then show ?thesis using gameValue_over[OF nx] m(3) by simp
  qed
  then have "holding s'"
    using holding_makeMove[OF play_O.IH i s'_def[symmetric] play_O.hyps(3)] by simp
  then show ?case by (simp add: s'_def s1)
qed

lemma minimax_over:
  assumes "\<not> checkWinOnBoard b PlayerX" "checkWinOnBoard b PlayerO \<or> emptyCellsOf b = []"
  shows "\<exists>sc\<ge>0. minimax b p alpha beta = (Inr (Obj \<lparr> index = None, score = sc \<rparr>), b)"
  using assms by (subst minimax.simps) (auto simp: Let_def)

text \<open>A game after X has opened on the centre cell.\<close>

lemma played_first:
  "played
     \<lparr> board = [Null, Null, Null, Null, Mark PlayerX, Null, Null, Null, Null],
       currentPlayer = PlayerO, mode = VsComputer, difficulty = Unbeatable, gameOver = False,
       scores = \<lparr> score_X = 0, score_O = 0, score_Draw = 0 \<rparr>,
       moveHistory = [\<lparr> move_index = 4, move_player = PlayerX \<rparr>] \<rparr>"
proof -
  let ?s0 = "initialState\<lparr> mode := VsComputer, difficulty := Unbeatable,
                scores := \<lparr> score_X = 0, score_O = 0, score_Draw = 0 \<rparr> \<rparr>"
  have mm: "makeMove 4 PlayerX ?s0 = (JsUndefined,
     \<lparr> board = [Null, Null, Null, Null, Mark PlayerX, Null, Null, Null, Null],
       currentPlayer = PlayerO, mode = VsComputer, difficulty = Unbeatable, gameOver = False,
       scores = \<lparr> score_X = 0, score_O = 0, score_Draw = 0 \<rparr>,
       moveHistory = [\<lparr> move_index = 4, move_player = PlayerX \<rparr>] \<rparr>)"
    by (simp add: makeMove_def initialState_def initialBoard_def js_read_def js_write_def Let_def
      checkWin_def winPatterns_def everyCell_def numeral_eq_Suc)
  have cp: "currentPlayer ?s0 = PlayerX" by (simp add: initialState_def)
  have p0: "played ?s0" by (rule play_start)
  have "played (snd (makeMove 4 PlayerX ?s0))" by (rule play_X[OF p0 cp]) simp
  then show ?thesis by (simp add: mm)
qed

text \<open>
  Claim C1. In every game in which X moves first and plays any free cells and O plays the
  moves of \<^verbatim>\<open>getBestMove\<close>, X never has three in a row: a finished game is a draw or a
  win of O, and the score that \<^verbatim>\<open>minimax\<close> gives its final board is 0 or more. O's move
  is always there to play: whenever it is O's turn in an open round, \<^verbatim>\<open>getBestMove\<close>
  returns an empty cell, and \<^verbatim>\<open>makeMove\<close> makes the move there.
\<close>

theorem unbeatable_never_loses:
  assumes "played s"
  shows "\<not> checkWinOnBoard (board s) PlayerX \<and>
    (gameOver s \<longrightarrow>
       (\<exists>sc\<ge>0. minimax (board s) p alpha beta = (Inr (Obj \<lparr> index = None, score = sc \<rparr>), board s))) \<and>
    (currentPlayer s = PlayerO \<and> \<not> gameOver s \<longrightarrow>
       (\<exists>i. getBestMove s = (Inr (Some i), s) \<and> i < 9 \<and> board s ! i = Null \<and>
            board (snd (makeMove i PlayerO s)) = (board s)[i := Mark PlayerO] \<and>
            moveHistory (snd (makeMove i PlayerO s))
              = moveHistory s @ [\<lparr> move_index = i, move_player = PlayerO \<rparr>]))"
proof -
  from played_holding[OF assms] have h: "holding s" .
  then have nx: "\<not> checkWinOnBoard (board s) PlayerX" by (simp add: holding_def)
  have over: "\<exists>sc\<ge>0. minimax (board s) p alpha beta
      = (Inr (Obj \<lparr> index = None, score = sc \<rparr>), board s)" if "gameOver s"
    using minimax_over[OF nx] h that by (simp add: holding_def)
  have go: "\<exists>i. getBestMove s = (Inr (Some i), s) \<and> i < 9 \<and> board s ! i = Null \<and>
            board (snd (makeMove i PlayerO s)) = (board s)[i := Mark PlayerO] \<and>
            moveHistory (snd (makeMove i PlayerO s))
              = moveHistory s @ [\<lparr> move_index = i, move_player = PlayerO \<rparr>]"
    if g: "\<not> gameOver s"
  proof -
    have "\<not> checkWinOnBoard (board s) PlayerO" "emptyCellsOf (board s) \<noteq> []"
      and len: "length (board s) = 9"
      using h that by (simp_all add: holding_def)
    from getBestMove_optimal[OF nx this(1,2)] obtain c where
      c: "getBestMove s = (Inr (Some c), s)" "c \<in> set (emptyCellsOf (board s))" by blast
    have c9: "c < 9" "board s ! c = Null" using c(2) len by (simp_all add: set_emptyCellsOf)
    have t: "\<not> truthy (js_read (board s) c)" using c(2) by (simp add: nulls_emptyCellsOf)
    have e: "snd (makeMove c PlayerO s) = snd (makeMove c PlayerO s)" by simp
    note m = makeMove_moved[OF e g t]
    have "board (snd (makeMove c PlayerO s)) = (board s)[c := Mark PlayerO]"
      using m(3) c9 len by (simp add: js_write_def)
    then show ?thesis using c(1) c9 m(4) by blast
  qed
  show ?thesis using nx over go by blast
qed

theorem unbeatable_never_loses_witness:
  "played
     \<lparr> board = [Null, Null, Null, Null, Mark PlayerX, Null, Null, Null, Null],
       currentPlayer = PlayerO, mode = VsComputer, difficulty = Unbeatable, gameOver = False,
       scores = \<lparr> score_X = 0, score_O = 0, score_Draw = 0 \<rparr>,
       moveHistory = [\<lparr> move_index = 4, move_player = PlayerX \<rparr>] \<rparr> \<and>
   \<not> checkWinOnBoard [Null, Null, Null, Null, Mark PlayerX, Null, Null, Null, Null] PlayerX \<and>
   (\<exists>i. getBestMove
     \<lparr> board = [Null, Null, Null, Null, Mark PlayerX, Null, Null, Null, Null],
       currentPlayer = PlayerO, mode = VsComputer, difficulty = Unbeatable, gameOver = False,
       scores = \<lparr> score_X = 0, score_O = 0, score_Draw = 0 \<rparr>,
       moveHistory = [\<lparr> move_index = 4, move_player = PlayerX \<rparr>] \<rparr>
     = (Inr (Some i),
     \<lparr> board = [Null, Null, Null, Null, Mark PlayerX, Null, Null, Null, Null],
       currentPlayer = PlayerO, mode = VsComputer, difficulty = Unbeatable, gameOver = False,
       scores = \<lparr> score_X = 0, score_O = 0, score_Draw = 0 \<rparr>,
       moveHistory = [\<lparr> move_index = 4, move_player = PlayerX \<rparr>] \<rparr>) \<and>
     i < 9 \<and> [Null, Null, Null, Null, Mark PlayerX, Null, Null, Null, Null] ! i = Null)"
proof -
  let ?S = "\<lparr> board = [Null, Null, Null, Null, Mark PlayerX, Null, Null, Null, Null],
       currentPlayer = PlayerO, mode = VsComputer, difficulty = Unbeatable, gameOver = False,
       scores = \<lparr> score_X = 0, score_O = 0, score_Draw = 0 \<rparr>,
       moveHistory = [\<lparr> move_index = 4, move_player = PlayerX \<rparr>] \<rparr>"
  note u = unbeatable_never_loses[OF played_first, where p = PlayerO and alpha = NegInfinity
      and beta = Infinity]
  from u have nx: "\<not> checkWinOnBoard (board ?S) PlayerX" by (rule conjunct1)
  from u obtain i where
    "getBestMove ?S = (Inr (Some i), ?S)" "i < 9" "board ?S ! i = Null" by auto
  then show ?thesis using played_first nx by auto
qed

end
